theory Spec2Isabelle
  imports Complex_Main
begin

section \<open>JavaScript strings and numbers\<close>

text \<open>
  A JavaScript string is a sequence of UTF-16 code units; a code unit is modelled by its
  numeric value. ASCII literals of the source are written \<open>js ''...''\<close>, the Korean
  literals by their code units.
\<close>

type_synonym jschar = nat
type_synonym jsstring = "jschar list"

definition js :: "string \<Rightarrow> jsstring" where
  "js s = map of_char s"

text \<open>
  Numbers: the finite values are exact rationals, with the two infinities and NaN beside
  them. The rounding of IEEE doubles is not modelled: a literal with more digits than a
  double holds keeps them all here, and nothing overflows to infinity. The values agree
  with the doubles of the code on the numbers that a double holds exactly, the whole
  numbers below \<open>2 ^ 53\<close> among them.
\<close>

datatype number = NaN | Num rat | PosInfinity | NegInfinity

definition isNaN :: "number \<Rightarrow> bool" where
  "isNaN n = (n = NaN)"

text \<open>The values that the handlers move around: \<open>undefined\<close>, strings and numbers.\<close>

datatype jsval = Undefined | String jsstring | Number number

fun truthy :: "jsval \<Rightarrow> bool" where
  "truthy Undefined = False"
| "truthy (String s) = (s \<noteq> [])"
| "truthy (Number n) = (case n of NaN \<Rightarrow> False | Num q \<Rightarrow> q \<noteq> 0 | _ \<Rightarrow> True)"

text \<open>\<open>a || b\<close>\<close>

definition js_or :: "jsval \<Rightarrow> jsval \<Rightarrow> jsval" where
  "js_or a b = (if truthy a then a else b)"

subsection \<open>Character classes\<close>

text \<open>Line terminators: LF, CR, U+2028, U+2029.\<close>

definition is_line_terminator :: "jschar \<Rightarrow> bool" where
  "is_line_terminator c = (c = 10 \<or> c = 13 \<or> c = 8232 \<or> c = 8233)"

text \<open>
  White space as \<open>String.prototype.trim\<close> and the class \<open>\s\<close> have it: TAB, VT, FF,
  U+FEFF, the space separators (U+0020, U+00A0, U+1680, U+2000..U+200A, U+202F, U+205F,
  U+3000) and the line terminators.
\<close>

definition is_space :: "jschar \<Rightarrow> bool" where
  "is_space c = (c = 9 \<or> c = 11 \<or> c = 12 \<or> c = 32 \<or> c = 160 \<or> c = 5760
     \<or> (8192 \<le> c \<and> c \<le> 8202) \<or> c = 8239 \<or> c = 8287 \<or> c = 12288 \<or> c = 65279
     \<or> is_line_terminator c)"

definition is_digit :: "jschar \<Rightarrow> bool" where
  "is_digit c = (48 \<le> c \<and> c \<le> 57)"

definition trim_start :: "jsstring \<Rightarrow> jsstring" where
  "trim_start s = dropWhile is_space s"

definition trim_end :: "jsstring \<Rightarrow> jsstring" where
  "trim_end s = rev (dropWhile is_space (rev s))"

definition trim :: "jsstring \<Rightarrow> jsstring" where
  "trim s = trim_end (trim_start s)"

subsection \<open>Reading numbers from strings\<close>

text \<open>
  The decimal literals of \<open>parseFloat\<close> and of the conversion of a string to a number:
  an optional sign, then \<open>Infinity\<close> or digits with an optional fraction and an
  optional exponent. The scanners return the value of the longest such prefix (NaN when
  there is none) and what follows it.
\<close>

definition digits_value :: "jsstring \<Rightarrow> nat" where
  "digits_value ds = foldl (\<lambda>a d. 10 * a + (d - 48)) 0 ds"

definition scan_exponent :: "jsstring \<Rightarrow> int \<times> jsstring" where
  "scan_exponent s =
     (case s of
        [] \<Rightarrow> (0, s)
      | e # r \<Rightarrow>
          if e = 101 \<or> e = 69 then
            (let neg = (r \<noteq> [] \<and> hd r = 45);
                 r' = (if r \<noteq> [] \<and> (hd r = 45 \<or> hd r = 43) then tl r else r);
                 ds = takeWhile is_digit r'
             in if ds = [] then (0, s)
                else (if neg then - int (digits_value ds) else int (digits_value ds),
                      dropWhile is_digit r'))
          else (0, s))"

definition scan_unsigned :: "jsstring \<Rightarrow> number \<times> jsstring" where
  "scan_unsigned s =
     (if take 8 s = js ''Infinity'' then (PosInfinity, drop 8 s)
      else
        let ip = takeWhile is_digit s;
            r1 = dropWhile is_digit s;
            dot = (r1 \<noteq> [] \<and> hd r1 = 46);
            fp = (if dot then takeWhile is_digit (tl r1) else []);
            r2 = (if dot then dropWhile is_digit (tl r1) else r1)
        in if ip = [] \<and> fp = [] then (NaN, s)
           else (Num ((of_nat (digits_value ip)
                        + of_nat (digits_value fp) / 10 ^ length fp)
                      * 10 powi fst (scan_exponent r2)),
                 snd (scan_exponent r2)))"

definition negate :: "number \<Rightarrow> number" where
  "negate n = (case n of NaN \<Rightarrow> NaN | Num q \<Rightarrow> Num (- q)
                | PosInfinity \<Rightarrow> NegInfinity | NegInfinity \<Rightarrow> PosInfinity)"

definition scan_signed :: "jsstring \<Rightarrow> number \<times> jsstring" where
  "scan_signed s =
     (case s of
        [] \<Rightarrow> (NaN, s)
      | c # r \<Rightarrow> if c = 45 then (negate (fst (scan_unsigned r)), snd (scan_unsigned r))
                 else if c = 43 then scan_unsigned r
                 else scan_unsigned s)"

text \<open>\<open>parseFloat\<close> skips leading white space and ignores what follows the literal.\<close>

definition parseFloat :: "jsstring \<Rightarrow> number" where
  "parseFloat s = fst (scan_signed (trim_start s))"

text \<open>
  The conversion that \<open>time - timestamp\<close> applies to a string: white space is trimmed
  at both ends; the empty string is 0; \<open>0x\<close>, \<open>0o\<close> and \<open>0b\<close> introduce an unsigned
  integer in that base; otherwise the whole string must be one decimal literal.
\<close>

definition digit_of :: "jschar \<Rightarrow> nat" where
  "digit_of c = (if 48 \<le> c \<and> c \<le> 57 then c - 48
                 else if 97 \<le> c \<and> c \<le> 122 then c - 87
                 else if 65 \<le> c \<and> c \<le> 90 then c - 55
                 else 36)"

definition radix_literal :: "nat \<Rightarrow> jsstring \<Rightarrow> number" where
  "radix_literal b ds =
     (if ds \<noteq> [] \<and> list_all (\<lambda>c. digit_of c < b) ds
      then Num (of_nat (foldl (\<lambda>a c. b * a + digit_of c) 0 ds))
      else NaN)"

definition to_number :: "jsstring \<Rightarrow> number" where
  "to_number s =
     (let t = trim s in
      if t = [] then Num 0
      else if take 2 t = js ''0x'' \<or> take 2 t = js ''0X'' then radix_literal 16 (drop 2 t)
      else if take 2 t = js ''0o'' \<or> take 2 t = js ''0O'' then radix_literal 8 (drop 2 t)
      else if take 2 t = js ''0b'' \<or> take 2 t = js ''0B'' then radix_literal 2 (drop 2 t)
      else if snd (scan_signed t) = [] then fst (scan_signed t) else NaN)"

text \<open>Subtraction, \<open>Math.abs\<close> and the comparison \<open>a > b\<close> on numbers.\<close>

fun minus_number :: "number \<Rightarrow> number \<Rightarrow> number" where
  "minus_number (Num a) (Num b) = Num (a - b)"
| "minus_number NaN _ = NaN"
| "minus_number _ NaN = NaN"
| "minus_number PosInfinity PosInfinity = NaN"
| "minus_number NegInfinity NegInfinity = NaN"
| "minus_number PosInfinity _ = PosInfinity"
| "minus_number NegInfinity _ = NegInfinity"
| "minus_number (Num a) PosInfinity = NegInfinity"
| "minus_number (Num a) NegInfinity = PosInfinity"

fun abs_number :: "number \<Rightarrow> number" where
  "abs_number NaN = NaN"
| "abs_number (Num a) = Num \<bar>a\<bar>"
| "abs_number PosInfinity = PosInfinity"
| "abs_number NegInfinity = PosInfinity"

fun greater_number :: "number \<Rightarrow> number \<Rightarrow> bool" where
  "greater_number (Num a) (Num b) = (a > b)"
| "greater_number NaN _ = False"
| "greater_number _ NaN = False"
| "greater_number PosInfinity PosInfinity = False"
| "greater_number PosInfinity _ = True"
| "greater_number NegInfinity _ = False"
| "greater_number (Num a) PosInfinity = False"
| "greater_number (Num a) NegInfinity = True"

subsection \<open>JSON.stringify\<close>

text \<open>
  \<open>JSON.stringify\<close> on an object whose properties are strings, the properties given in
  their enumeration order. A string is quoted; quote, backslash and the control
  characters are escaped, and so is a surrogate that is not part of a pair.
\<close>

definition hex4 :: "nat \<Rightarrow> jsstring" where
  "hex4 n = map (\<lambda>d. js ''0123456789abcdef'' ! d)
              [n div 4096 mod 16, n div 256 mod 16, n div 16 mod 16, n mod 16]"

definition unicode_escape :: "jschar \<Rightarrow> jsstring" where
  "unicode_escape c = js [CHR 0x5C, CHR ''u''] @ hex4 c"

definition escape_char :: "jschar \<Rightarrow> jsstring" where
  "escape_char c =
     (if c = 8 then js [CHR 0x5C, CHR ''b'']
      else if c = 9 then js [CHR 0x5C, CHR ''t'']
      else if c = 10 then js [CHR 0x5C, CHR ''n'']
      else if c = 12 then js [CHR 0x5C, CHR ''f'']
      else if c = 13 then js [CHR 0x5C, CHR ''r'']
      else if c = 34 then js [CHR 0x5C, CHR 0x22]
      else if c = 92 then js [CHR 0x5C, CHR 0x5C]
      else if c < 32 then unicode_escape c
      else [c])"

definition is_high_surrogate :: "jschar \<Rightarrow> bool" where
  "is_high_surrogate c = (55296 \<le> c \<and> c \<le> 56319)"

definition is_low_surrogate :: "jschar \<Rightarrow> bool" where
  "is_low_surrogate c = (56320 \<le> c \<and> c \<le> 57343)"

fun quote_chars :: "jsstring \<Rightarrow> jsstring" where
  "quote_chars [] = []"
| "quote_chars [c] =
     (if is_high_surrogate c \<or> is_low_surrogate c then unicode_escape c else escape_char c)"
| "quote_chars (c # d # cs) =
     (if is_high_surrogate c \<and> is_low_surrogate d then c # d # quote_chars cs
      else if is_high_surrogate c \<or> is_low_surrogate c then unicode_escape c @ quote_chars (d # cs)
      else escape_char c @ quote_chars (d # cs))"

definition quote_json :: "jsstring \<Rightarrow> jsstring" where
  "quote_json s = [34] @ quote_chars s @ [34]"

fun join :: "jsstring \<Rightarrow> jsstring list \<Rightarrow> jsstring" where
  "join sep [] = []"
| "join sep [x] = x"
| "join sep (x # xs) = x @ sep @ join sep xs"

definition JSON_stringify :: "(jsstring \<times> jsstring) list \<Rightarrow> jsstring" where
  "JSON_stringify obj =
     js ''{'' @ join (js '','') (map (\<lambda>(k, v). quote_json k @ js '':'' @ quote_json v) obj) @ js ''}''"

section \<open>Regular expressions\<close>

text \<open>
  The fragment of the regular expressions that \<open>parseInput\<close> uses, with the
  backtracking order of the language: an alternative tries its left side first, a greedy
  quantifier tries one more iteration before it stops, a lazy one stops before it tries
  one more, and an iteration that consumes nothing is abandoned. The matcher lists every
  way to match at the current position, in that order; the match that JavaScript reports
  is the first one. No quantifier of the two patterns encloses a capturing group, so the
  clearing of captures at each iteration is left out.
\<close>

datatype cclass =
    AnyChar                \<comment> \<open>\<open>.\<close>\<close>
  | Space                  \<comment> \<open>\<open>\s\<close>\<close>
  | Digit                  \<comment> \<open>\<open>\d\<close>\<close>
  | Lit jschar
  | Union cclass cclass    \<comment> \<open>\<open>[ab]\<close>\<close>

fun in_class :: "cclass \<Rightarrow> jschar \<Rightarrow> bool" where
  "in_class AnyChar c = (\<not> is_line_terminator c)"
| "in_class Space c = is_space c"
| "in_class Digit c = is_digit c"
| "in_class (Lit x) c = (c = x)"
| "in_class (Union a b) c = (in_class a c \<or> in_class b c)"

datatype regex =
    Eps                    \<comment> \<open>the empty pattern\<close>
  | Bol                    \<comment> \<open>\<open>^\<close>\<close>
  | Eol                    \<comment> \<open>\<open>$\<close>\<close>
  | Ch cclass
  | Seq regex regex
  | Alt regex regex        \<comment> \<open>\<open>a|b\<close>\<close>
  | Opt regex              \<comment> \<open>\<open>a?\<close>\<close>
  | Star regex             \<comment> \<open>\<open>a*\<close>\<close>
  | LazyStar regex         \<comment> \<open>\<open>a*?\<close>\<close>
  | Group nat regex        \<comment> \<open>the capturing group of that number\<close>

text \<open>\<open>a+\<close> and \<open>a+?\<close>: one iteration, then the starred form.\<close>

definition Plus :: "regex \<Rightarrow> regex" where
  "Plus a = Seq a (Star a)"

definition LazyPlus :: "regex \<Rightarrow> regex" where
  "LazyPlus a = Seq a (LazyStar a)"

text \<open>A sequence of patterns, and a literal string.\<close>

fun Seqs :: "regex list \<Rightarrow> regex" where
  "Seqs [] = Eps"
| "Seqs [a] = a"
| "Seqs (a # as) = Seq a (Seqs as)"

definition Lits :: "jsstring \<Rightarrow> regex" where
  "Lits s = Seqs (map (\<lambda>c. Ch (Lit c)) s)"

text \<open>
  A matcher state: the number of code units before the current position, the rest of the
  input, and the captures made so far.
\<close>

type_synonym captures = "nat \<rightharpoonup> jsstring"
type_synonym mstate = "nat \<times> jsstring \<times> captures"

function run :: "regex \<Rightarrow> mstate \<Rightarrow> mstate list" where
  "run Eps (i, s, c) = [(i, s, c)]"
| "run Bol (i, s, c) = (if i = 0 then [(i, s, c)] else [])"
| "run Eol (i, s, c) = (if s = [] then [(i, s, c)] else [])"
| "run (Ch k) (i, s, c) =
     (case s of [] \<Rightarrow> [] | x # xs \<Rightarrow> if in_class k x then [(Suc i, xs, c)] else [])"
| "run (Seq a b) (i, s, c) = concat (map (run b) (run a (i, s, c)))"
| "run (Alt a b) (i, s, c) = run a (i, s, c) @ run b (i, s, c)"
| "run (Opt a) (i, s, c) =
     filter (\<lambda>(j, s', c'). length s' < length s) (run a (i, s, c)) @ [(i, s, c)]"
| "run (Star a) (i, s, c) =
     concat (map (\<lambda>(j, s', c'). if length s' < length s then run (Star a) (j, s', c') else [])
                 (run a (i, s, c)))
     @ [(i, s, c)]"
| "run (LazyStar a) (i, s, c) =
     (i, s, c) #
     concat (map (\<lambda>(j, s', c'). if length s' < length s then run (LazyStar a) (j, s', c') else [])
                 (run a (i, s, c)))"
| "run (Group n a) (i, s, c) =
     map (\<lambda>(j, s', c'). (j, s', c'(n \<mapsto> take (j - i) s))) (run a (i, s, c))"
  by pat_completeness auto
termination
  by (relation "inv_image (less_than <*lex*> less_than) (\<lambda>(r, i, s, c). (size r, length s))")
     auto

text \<open>
  \<open>exec\<close>: the first start index at which the expression matches, and there the first
  match; the result carries the whole match (index 0 of the array that \<open>match\<close>
  returns) and the captures.
\<close>

fun exec_from :: "regex \<Rightarrow> nat \<Rightarrow> jsstring \<Rightarrow> (jsstring \<times> captures) option" where
  "exec_from r i [] =
     (case run r (i, [], Map.empty) of
        [] \<Rightarrow> None
      | (j, s', c) # _ \<Rightarrow> Some ([], c))"
| "exec_from r i (x # xs) =
     (case run r (i, x # xs, Map.empty) of
        [] \<Rightarrow> exec_from r (Suc i) xs
      | (j, s', c) # _ \<Rightarrow> Some (take (j - i) (x # xs), c))"

definition exec :: "regex \<Rightarrow> jsstring \<Rightarrow> (jsstring \<times> captures) option" where
  "exec r s = exec_from r 0 s"

section \<open>The input parser\<close>

text \<open>
  \<^verbatim>\<open>/^(.+?)\s+(\$?[\d,]+(?:\.\d{2})?)\s*(?:...|...|USD|KRW)?$/\<close>, the first two
  alternatives of the suffix being the Korean words for dollar (U+B2EC U+B7EC) and won
  (U+C6D0).
\<close>

definition pattern1 :: regex where
  "pattern1 = Seqs
     [Bol,
      Group 1 (LazyPlus (Ch AnyChar)),
      Plus (Ch Space),
      Group 2 (Seqs [Opt (Ch (Lit 36)),
                     Plus (Ch (Union Digit (Lit 44))),
                     Opt (Seqs [Ch (Lit 46), Ch Digit, Ch Digit])]),
      Star (Ch Space),
      Opt (Alt (Lits [45804, 47084]) (Alt (Lits [50896]) (Alt (Lits (js ''USD'')) (Lits (js ''KRW''))))),
      Eol]"

text \<open>\<^verbatim>\<open>/^(.+?)\s+(\d+(?:\.\d{2})?)\s*$/\<close>\<close>

definition pattern2 :: regex where
  "pattern2 = Seqs
     [Bol,
      Group 1 (LazyPlus (Ch AnyChar)),
      Plus (Ch Space),
      Group 2 (Seqs [Plus (Ch Digit),
                     Opt (Seqs [Ch (Lit 46), Ch Digit, Ch Digit])]),
      Star (Ch Space),
      Eol]"

definition patterns :: "regex list" where
  "patterns = [pattern1, pattern2]"

record parsed =
  programName :: jsstring
  amount :: number

text \<open>\<^verbatim>\<open>match[2].replace(/[\$,]/g, '').trim()\<close>\<close>

definition strip_amount :: "jsstring \<Rightarrow> jsstring" where
  "strip_amount s = trim (filter (\<lambda>c. c \<noteq> 36 \<and> c \<noteq> 44) s)"

text \<open>
  A capturing group that took no part in the match is \<open>undefined\<close>, and calling
  \<open>trim\<close> or \<open>replace\<close> on it throws.
\<close>

datatype error = TypeError | ApiError

fun parse_loop :: "regex list \<Rightarrow> jsstring \<Rightarrow> error + parsed option" where
  "parse_loop [] text = Inr None"
| "parse_loop (pattern # rest) text =
     (case exec pattern (trim text) of
        None \<Rightarrow> parse_loop rest text
      | Some (whole, groups) \<Rightarrow>
          (case (groups 1, groups 2) of
             (Some g1, Some g2) \<Rightarrow>
               (let programName = trim g1;
                    amount = strip_amount g2
                in if \<not> isNaN (parseFloat amount)
                   then Inr (Some \<lparr>programName = programName, amount = parseFloat amount\<rparr>)
                   else parse_loop rest text)
           | _ \<Rightarrow> Inl TypeError))"

definition parseInput :: "jsstring \<Rightarrow> error + parsed option" where
  "parseInput text = parse_loop patterns text"

section \<open>Requests, the environment and the outside world\<close>

text \<open>
  A request as the handlers see it: the two headers that the verifier reads (absent
  headers are \<open>undefined\<close>) and \<open>req.body\<close>, the object that the body parsers built,
  as its properties in enumeration order. \<open>rawBody\<close> is the body as it came over the
  wire; the body parsers consume it and no function below reads it.
\<close>

record request =
  x_slack_signature :: "jsstring option"
  x_slack_request_timestamp :: "jsstring option"
  rawBody :: jsstring
  body :: "(jsstring \<times> jsstring) list"

definition body_field :: "request \<Rightarrow> jsstring \<Rightarrow> jsstring option" where
  "body_field req k = map_of (body req) k"

text \<open>\<open>result.user\<close> of a \<open>users.info\<close> answer.\<close>

record user =
  real_name :: jsval
  display_name :: jsval
  name :: jsval

text \<open>The argument of \<open>sheets.spreadsheets.values.append\<close>.\<close>

record append_request =
  spreadsheetId :: "jsstring option"
  sheet_range :: jsstring
  valueInputOption :: jsstring
  resource_values :: "jsval list list"

text \<open>
  The messages that the handlers send, by kind and with the values that they interpolate
  (the formatting of the texts is not modelled).
\<close>

datatype message =
    Processing                                   \<comment> \<open>the acknowledgment\<close>
  | Usage "jsstring option"
  | Format_error "jsstring option"
  | Registered jsval jsstring number jsstring    \<comment> \<open>purchaser, program, amount, date\<close>
  | Sheet_failed
  | Retry_later
  | Sync_usage
  | Sync_format_error
  | Sync_registered jsstring jsstring
  | Sync_sheet_failed jsstring jsstring

text \<open>What a handler does that can be seen from outside, in the order in which it does it.\<close>

datatype event =
    Respond nat message                          \<comment> \<open>\<open>res.status(n).send(...)\<close>\<close>
  | Parse_input jsstring                         \<comment> \<open>the call of \<open>parseInput\<close>\<close>
  | Users_info "jsstring option"                 \<comment> \<open>\<open>slack.users.info\<close>\<close>
  | Sheets_append append_request
  | Post_message "jsstring option" message       \<comment> \<open>\<open>slack.chat.postMessage\<close>\<close>
  | Console_log
  | Console_error

text \<open>
  The world outside the process: the rows of the sheet, and the events so far. An append
  that the service accepts adds its rows at the end of the sheet; one that it refuses
  leaves the sheet as it was.
\<close>

record world =
  ledger :: "jsval list list"
  events :: "event list"

text \<open>
  The environment of one request: the configuration, the clock, the keyed hash of the
  \<open>crypto\<close> module (key, then message, to the hexadecimal digest), and the answers of
  the two services.
\<close>

record env =
  SLACK_SIGNING_SECRET :: "jsstring option"
  GOOGLE_SHEETS_ID :: "jsstring option"
  hmac_sha256_hex :: "jsstring \<Rightarrow> jsstring \<Rightarrow> jsstring"
  getTime :: int                                 \<comment> \<open>milliseconds\<close>
  toLocaleDateString :: jsstring
  users_info :: "jsstring option \<Rightarrow> error + user option"
  sheets_accepts :: "append_request \<Rightarrow> bool"
  postMessage_succeeds :: "jsstring option \<Rightarrow> message \<Rightarrow> bool"

definition emit :: "event \<Rightarrow> world \<Rightarrow> world" where
  "emit e w = w\<lparr>events := events w @ [e]\<rparr>"

section \<open>The signature verifier\<close>

datatype verdict = Rejected nat jsstring | Next

definition verifySlackRequest :: "env \<Rightarrow> request \<Rightarrow> error + verdict" where
  "verifySlackRequest e req =
     (let signature = x_slack_signature req;
          timestamp = x_slack_request_timestamp req;
          body = JSON_stringify (body req)
      in case (signature, timestamp) of
           (Some sg, Some ts) \<Rightarrow>
             if sg = [] \<or> ts = [] then Inr (Rejected 400 (js ''Invalid request''))
             else
               let time = getTime e div 1000 in
               if greater_number (abs_number (minus_number (Num (of_int time)) (to_number ts)))
                    (Num 300)
               then Inr (Rejected 400 (js ''Request too old''))
               else
                 let sigBasestring = js ''v0:'' @ ts @ js '':'' @ body in
                 (case SLACK_SIGNING_SECRET e of
                    None \<Rightarrow> Inl TypeError
                  | Some secret \<Rightarrow>
                      let mySignature = js ''v0='' @ hmac_sha256_hex e secret sigBasestring in
                      if sg \<noteq> mySignature then Inr (Rejected 400 (js ''Invalid signature''))
                      else Inr Next)
         | _ \<Rightarrow> Inr (Rejected 400 (js ''Invalid request'')))"

section \<open>The ledger appender\<close>

definition sheets_append :: "env \<Rightarrow> append_request \<Rightarrow> world \<Rightarrow> (error + unit) \<times> world" where
  "sheets_append e rq w =
     (let w1 = emit (Sheets_append rq) w in
      if sheets_accepts e rq then (Inr (), w1\<lparr>ledger := ledger w1 @ resource_values rq\<rparr>)
      else (Inl ApiError, w1))"

definition addToSpreadsheet ::
  "env \<Rightarrow> jsval \<Rightarrow> jsstring \<Rightarrow> number \<Rightarrow> jsstring \<Rightarrow> world \<Rightarrow> (error + bool) \<times> world" where
  "addToSpreadsheet e purchaserName programName' amount' date w =
     (let values = [ [String date, purchaserName, String programName', Number amount', String []] ];
          rq = \<lparr>spreadsheetId = GOOGLE_SHEETS_ID e, sheet_range = js ''Sheet1!A:E'',
                valueInputOption = js ''USER_ENTERED'', resource_values = values\<rparr>
      in case sheets_append e rq w of
           (Inr u, w1) \<Rightarrow> (Inr True, emit Console_log w1)
         | (Inl err, w1) \<Rightarrow> (Inr False, emit Console_error w1))"

section \<open>The user resolver\<close>

definition getSlackUserInfo ::
  "env \<Rightarrow> jsstring option \<Rightarrow> world \<Rightarrow> (error + jsval) \<times> world" where
  "getSlackUserInfo e userId w =
     (let w1 = emit (Users_info userId) w;
          tried = (case users_info e userId of
                     Inl err \<Rightarrow> Inl err
                   | Inr None \<Rightarrow> Inl TypeError
                   | Inr (Some u) \<Rightarrow> Inr (js_or (js_or (real_name u) (display_name u)) (name u)))
      in case tried of
           Inr v \<Rightarrow> (Inr v, w1)
         | Inl err \<Rightarrow> (Inr (String (js ''Unknown User'')), emit Console_error w1))"

section \<open>The command handlers\<close>

definition postMessage ::
  "env \<Rightarrow> jsstring option \<Rightarrow> message \<Rightarrow> world \<Rightarrow> (error + unit) \<times> world" where
  "postMessage e channel m w =
     (if postMessage_succeeds e channel m then Inr () else Inl ApiError,
      emit (Post_message channel m) w)"

text \<open>The name of the command: a slash, \<open>ai\<close>, and the two syllables U+AD6C U+B9E4.\<close>

definition ai_command :: jsstring where
  "ai_command = js ''/ai'' @ [44396, 47588]"

text \<open>
  The handler that acknowledges at once and reports with a message to the channel
  afterwards. \<open>handler_try\<close> is its \<open>try\<close> block, \<open>commands_handler\<close> the whole of it
  with the \<open>catch\<close>; \<open>Inl\<close> is an error that leaves the function.
\<close>

definition handler_try :: "env \<Rightarrow> request \<Rightarrow> world \<Rightarrow> (error + unit) \<times> world" where
  "handler_try e req w =
     (let command = body_field req (js ''command'');
          text = body_field req (js ''text'');
          user_id = body_field req (js ''user_id'');
          channel_id = body_field req (js ''channel_id'')
      in if command = Some ai_command then
           (case text of
              None \<Rightarrow> postMessage e channel_id (Usage command) w
            | Some tx \<Rightarrow>
                if tx = [] \<or> trim tx = [] then postMessage e channel_id (Usage command) w
                else
                  (case parseInput tx of
                     Inl err \<Rightarrow> (Inl err, emit (Parse_input tx) w)
                   | Inr None \<Rightarrow>
                       postMessage e channel_id (Format_error command) (emit (Parse_input tx) w)
                   | Inr (Some parsed) \<Rightarrow>
                       (case getSlackUserInfo e user_id (emit (Parse_input tx) w) of
                          (Inl err, w1) \<Rightarrow> (Inl err, w1)
                        | (Inr userName, w1) \<Rightarrow>
                            let currentDate = toLocaleDateString e in
                            (case addToSpreadsheet e userName (programName parsed)
                                    (amount parsed) currentDate w1 of
                               (Inl err, w2) \<Rightarrow> (Inl err, w2)
                             | (Inr success, w2) \<Rightarrow>
                                 if success
                                 then postMessage e channel_id
                                        (Registered userName (programName parsed)
                                           (amount parsed) currentDate) w2
                                 else postMessage e channel_id Sheet_failed w2))))
         else (Inr (), w))"

definition commands_handler :: "env \<Rightarrow> request \<Rightarrow> world \<Rightarrow> (error + unit) \<times> world" where
  "commands_handler e req w =
     (let w0 = emit (Respond 200 Processing) w in
      case handler_try e req w0 of
        (Inr u, w1) \<Rightarrow> (Inr u, w1)
      | (Inl err, w1) \<Rightarrow>
          postMessage e (body_field req (js ''channel_id'')) Retry_later (emit Console_error w1))"

text \<open>
  The route as the application registers it: \<open>app.post('/slack/commands', handler)\<close>
  behind the two body parsers only. \<open>verifySlackRequest\<close> is defined but mounted nowhere,
  neither with \<open>app.use\<close> nor on the route.
\<close>

definition post_slack_commands :: "env \<Rightarrow> request \<Rightarrow> world \<Rightarrow> (error + unit) \<times> world" where
  "post_slack_commands e req w = commands_handler e req w"

subsection \<open>The handler of \<open>src/app.js\<close>\<close>

text \<open>\<open>text.split(' ')\<close>\<close>

fun split_on :: "jschar \<Rightarrow> jsstring \<Rightarrow> jsstring list" where
  "split_on d [] = [ [] ]"
| "split_on d (c # cs) =
     (if c = d then [] # split_on d cs
      else (case split_on d cs of p # ps \<Rightarrow> (c # p) # ps | [] \<Rightarrow> [ [c] ]))"

text \<open>
  This variant answers once, at the end: it splits the text at single spaces, keeps
  the digits and dots of the last part as the amount, and appends under a fixed
  purchaser name (the six syllables of the source).
\<close>

definition test_user :: jsstring where
  "test_user = [53580, 49828, 53944, 49324, 50857, 51088]"

definition commands_handler_sync :: "env \<Rightarrow> request \<Rightarrow> world \<Rightarrow> (error + unit) \<times> world" where
  "commands_handler_sync e req w =
     (let w0 = emit Console_log w in
      case body_field req (js ''text'') of
        None \<Rightarrow> (Inr (), emit (Respond 200 Sync_usage) w0)
      | Some tx \<Rightarrow>
          if tx = [] \<or> trim tx = [] then (Inr (), emit (Respond 200 Sync_usage) w0)
          else
            let parts = split_on 32 tx in
            if length parts < 2 then (Inr (), emit (Respond 200 Sync_format_error) w0)
            else
              let amount = filter (\<lambda>c. is_digit c \<or> c = 46) (last parts);
                  programName = join [32] (butlast parts);
                  currentDate = toLocaleDateString e;
                  values = [ [String currentDate, String test_user, String programName,
                             String amount, String []] ];
                  rq = \<lparr>spreadsheetId = GOOGLE_SHEETS_ID e, sheet_range = js ''Sheet1!A:E'',
                        valueInputOption = js ''USER_ENTERED'', resource_values = values\<rparr>
              in case sheets_append e rq w0 of
                   (Inr u, w1) \<Rightarrow>
                     (Inr (), emit (Respond 200 (Sync_registered programName amount)) w1)
                 | (Inl err, w1) \<Rightarrow>
                     (Inr (), emit (Respond 200 (Sync_sheet_failed programName amount))
                                (emit Console_error w1)))"

text \<open>
  The name that the resolver returns, as a function of the directory's answer alone
  (\<open>getSlackUserInfo_fst\<close> below).
\<close>

definition resolved_name :: "env \<Rightarrow> jsstring option \<Rightarrow> jsval" where
  "resolved_name e u =
     (case users_info e u of
        Inr (Some usr) \<Rightarrow> js_or (js_or (real_name usr) (display_name usr)) (name usr)
      | _ \<Rightarrow> String (js ''Unknown User''))"

section \<open>Example inputs\<close>

text \<open>
  A concrete environment for the examples: both services answer, and a toy function
  stands where the keyed hash is (no example depends on which function it is).
\<close>

definition example_env :: env where
  "example_env =
     \<lparr>SLACK_SIGNING_SECRET = Some (js ''secret''),
      GOOGLE_SHEETS_ID = Some (js ''sheet''),
      hmac_sha256_hex = (\<lambda>k m. hex4 ((sum_list k + sum_list m) mod 65536)),
      getTime = 1700000000123,
      toLocaleDateString = js ''2023. 11. 14.'',
      users_info = (\<lambda>u. Inr (Some \<lparr>real_name = String (js ''Kim''), display_name = Undefined,
                                        name = String (js ''kim'')\<rparr>)),
      sheets_accepts = (\<lambda>rq. True),
      postMessage_succeeds = (\<lambda>c m. True)\<rparr>"

text \<open>The same with a user directory that is down.\<close>

definition example_env_no_directory :: env where
  "example_env_no_directory = example_env\<lparr>users_info := (\<lambda>u. Inl ApiError)\<rparr>"

text \<open>A purchase command that carries neither of the two signature headers.\<close>

definition unsigned_request :: request where
  "unsigned_request =
     \<lparr>x_slack_signature = None,
      x_slack_request_timestamp = None,
      rawBody = js ''command=%2Fai%EA%B5%AC%EB%A7%A4&text=ChatGPT+Plus+20000&user_id=U1&channel_id=C1'',
      body = [(js ''command'', ai_command), (js ''text'', js ''ChatGPT Plus 20000''),
              (js ''user_id'', js ''U1''), (js ''channel_id'', js ''C1'')]\<rparr>"

text \<open>
  A form-encoded request signed the way the platform signs: with the keyed hash \<open>h\<close>
  over \<open>v0:\<close>, the timestamp, a colon and the raw body.
\<close>

definition raw_signed_request :: "(jsstring \<Rightarrow> jsstring \<Rightarrow> jsstring) \<Rightarrow> request" where
  "raw_signed_request h =
     \<lparr>x_slack_signature = Some (js ''v0='' @ h (js ''secret'') (js ''v0:1700000000:text=a'')),
      x_slack_request_timestamp = Some (js ''1700000000''),
      rawBody = js ''text=a'',
      body = [(js ''text'', js ''a'')]\<rparr>"

text \<open>A command of another name.\<close>

definition other_request :: request where
  "other_request =
     \<lparr>x_slack_signature = None,
      x_slack_request_timestamp = None,
      rawBody = js ''command=%2Fhelp&text=ChatGPT+Plus+20000&channel_id=C1'',
      body = [(js ''command'', js ''/help''), (js ''text'', js ''ChatGPT Plus 20000''),
              (js ''channel_id'', js ''C1'')]\<rparr>"

text \<open>A request whose timestamp is 301 seconds behind the clock of \<open>example_env\<close>.\<close>

definition stale_request :: request where
  "stale_request =
     \<lparr>x_slack_signature = Some (js ''v0=abc''),
      x_slack_request_timestamp = Some (js ''1699999699''),
      rawBody = js ''text=a'',
      body = [(js ''text'', js ''a'')]\<rparr>"

text \<open>
  The clock 999 milliseconds into its second, and a request whose timestamp is 300 whole
  seconds before that second, hence 300.999 seconds old, under a signature \<open>sg\<close>.
\<close>

definition late_env :: env where
  "late_env = example_env\<lparr>getTime := 1700000000999\<rparr>"

definition late_request :: "jsstring \<Rightarrow> request" where
  "late_request sg =
     \<lparr>x_slack_signature = Some sg,
      x_slack_request_timestamp = Some (js ''1699999700''),
      rawBody = js ''text=a'',
      body = [(js ''text'', js ''a'')]\<rparr>"

definition empty_world :: world where
  "empty_world = \<lparr>ledger = [], events = []\<rparr>"

section \<open>Properties of the input parser\<close>

subsection \<open>Examples\<close>

lemmas parse_eval =
  parseInput_def patterns_def pattern1_def pattern2_def Plus_def LazyPlus_def Lits_def js_def
  is_space_def is_digit_def is_line_terminator_def exec_def strip_amount_def trim_def
  trim_start_def trim_end_def parseFloat_def scan_signed_def scan_unsigned_def
  digits_value_def scan_exponent_def isNaN_def

lemma parse_chatgpt:
  "parseInput (js ''ChatGPT Plus 20000'')
     = Inr (Some \<lparr>programName = js ''ChatGPT Plus'', amount = Num 20000\<rparr>)"
  by (simp add: parse_eval)

lemma parse_claude:
  "parseInput (js ''Claude Pro $20'')
     = Inr (Some \<lparr>programName = js ''Claude Pro'', amount = Num 20\<rparr>)"
  by (simp add: parse_eval)

lemma parse_midjourney:
  "parseInput (js ''Midjourney 10'' @ [45804, 47084])
     = Inr (Some \<lparr>programName = js ''Midjourney'', amount = Num 10\<rparr>)"
  by (simp add: parse_eval)

lemma parse_tool:
  "parseInput (js ''Tool 20,000.50'')
     = Inr (Some \<lparr>programName = js ''Tool'', amount = Num 20000.5\<rparr>)"
  by (simp add: parse_eval)

lemma parse_just_text: "parseInput (js ''just text'') = Inr None"
  by (simp add: parse_eval)

text \<open>
  Claim C4. The parser maps "ChatGPT Plus 20000" to the item "ChatGPT Plus" with the amount
  20000, "Claude Pro $20" to "Claude Pro" with 20, "Midjourney 10" followed by the word for
  dollar to "Midjourney" with 10, and "Tool 20,000.50" to the amount 20000.5.
\<close>

theorem parseInput_examples:
  "parseInput (js ''ChatGPT Plus 20000'')
     = Inr (Some \<lparr>programName = js ''ChatGPT Plus'', amount = Num 20000\<rparr>)
   \<and> parseInput (js ''Claude Pro $20'')
     = Inr (Some \<lparr>programName = js ''Claude Pro'', amount = Num 20\<rparr>)
   \<and> parseInput (js ''Midjourney 10'' @ [45804, 47084])
     = Inr (Some \<lparr>programName = js ''Midjourney'', amount = Num 10\<rparr>)
   \<and> parseInput (js ''Tool 20,000.50'')
     = Inr (Some \<lparr>programName = js ''Tool'', amount = Num 20000.5\<rparr>)"
  using parse_chatgpt parse_claude parse_midjourney parse_tool by blast

subsection \<open>What the matcher returns\<close>

lemma in_run_Ch:
  "(j, s', c') \<in> set (run (Ch k) (i, s, c))
     \<longleftrightarrow> (\<exists>x. s = x # s' \<and> in_class k x \<and> j = Suc i \<and> c' = c)"
  by (cases s) auto

lemma in_run_Seq:
  "x \<in> set (run (Seq a b) st) \<longleftrightarrow> (\<exists>y \<in> set (run a st). x \<in> set (run b y))"
  by (cases st) auto

lemma in_run_Alt:
  "x \<in> set (run (Alt a b) st) \<longleftrightarrow> x \<in> set (run a st) \<or> x \<in> set (run b st)"
  by (cases st) auto

lemma in_run_Opt:
  "x \<in> set (run (Opt a) st) \<Longrightarrow> x = st \<or> x \<in> set (run a st)"
  by (cases st) auto

lemma in_run_Group:
  "(j, s', c') \<in> set (run (Group n a) (i, s, c))
     \<longleftrightarrow> (\<exists>c0. (j, s', c0) \<in> set (run a (i, s, c)) \<and> c' = c0(n \<mapsto> take (j - i) s))"
  by (auto simp: image_iff) force

lemma run_Star_Ch_Nil: "run (Star (Ch k)) (i, [], c) = [(i, [], c)]"
  by (subst run.simps) simp

lemma run_Star_Ch_Cons:
  "run (Star (Ch k)) (i, x # xs, c) =
     (if in_class k x then run (Star (Ch k)) (Suc i, xs, c) else []) @ [(i, x # xs, c)]"
  by (subst run.simps) (simp del: run.simps(8))

lemma run_LazyStar_Ch_Nil: "run (LazyStar (Ch k)) (i, [], c) = [(i, [], c)]"
  by (subst run.simps) simp

lemma run_LazyStar_Ch_Cons:
  "run (LazyStar (Ch k)) (i, x # xs, c) =
     (i, x # xs, c) # (if in_class k x then run (LazyStar (Ch k)) (Suc i, xs, c) else [])"
  by (subst run.simps) (simp del: run.simps(9))

lemma in_run_Star_Ch:
  "(j, s', c') \<in> set (run (Star (Ch k)) (i, s, c))
     \<Longrightarrow> \<exists>u. s = u @ s' \<and> list_all (in_class k) u \<and> j = i + length u \<and> c' = c"
proof (induction s arbitrary: i)
  case Nil
  then show ?case by (simp add: run_Star_Ch_Nil del: run.simps)
next
  case (Cons x xs)
  show ?case
  proof (cases "(j, s', c') = (i, x # xs, c)")
    case True
    then show ?thesis by simp
  next
    case False
    with Cons.prems have k: "in_class k x"
      and m: "(j, s', c') \<in> set (run (Star (Ch k)) (Suc i, xs, c))"
      by (auto simp add: run_Star_Ch_Cons simp del: run.simps split: if_splits)
    from Cons.IH [OF m] obtain u
      where "xs = u @ s'" "list_all (in_class k) u" "j = Suc i + length u" "c' = c"
      by blast
    with k have "x # xs = (x # u) @ s' \<and> list_all (in_class k) (x # u)
                   \<and> j = i + length (x # u) \<and> c' = c"
      by simp
    then show ?thesis by blast
  qed
qed

lemma in_run_LazyStar_Ch:
  "(j, s', c') \<in> set (run (LazyStar (Ch k)) (i, s, c))
     \<Longrightarrow> \<exists>u. s = u @ s' \<and> list_all (in_class k) u \<and> j = i + length u \<and> c' = c"
proof (induction s arbitrary: i)
  case Nil
  then show ?case by (simp add: run_LazyStar_Ch_Nil del: run.simps)
next
  case (Cons x xs)
  show ?case
  proof (cases "(j, s', c') = (i, x # xs, c)")
    case True
    then show ?thesis by simp
  next
    case False
    with Cons.prems have k: "in_class k x"
      and m: "(j, s', c') \<in> set (run (LazyStar (Ch k)) (Suc i, xs, c))"
      by (auto simp add: run_LazyStar_Ch_Cons simp del: run.simps split: if_splits)
    from Cons.IH [OF m] obtain u
      where "xs = u @ s'" "list_all (in_class k) u" "j = Suc i + length u" "c' = c"
      by blast
    with k have "x # xs = (x # u) @ s' \<and> list_all (in_class k) (x # u)
                   \<and> j = i + length (x # u) \<and> c' = c"
      by simp
    then show ?thesis by blast
  qed
qed

lemma in_run_Plus_Ch:
  "(j, s', c') \<in> set (run (Plus (Ch k)) (i, s, c))
     \<Longrightarrow> \<exists>u. u \<noteq> [] \<and> s = u @ s' \<and> list_all (in_class k) u \<and> j = i + length u \<and> c' = c"
proof -
  assume "(j, s', c') \<in> set (run (Plus (Ch k)) (i, s, c))"
  then obtain y where y: "y \<in> set (run (Ch k) (i, s, c))" and r: "(j, s', c') \<in> set (run (Star (Ch k)) y)"
    unfolding Plus_def in_run_Seq by blast
  obtain j0 s0 c0 where y0: "y = (j0, s0, c0)" by (cases y) auto
  with y obtain x where x: "s = x # s0" "in_class k x" "j0 = Suc i" "c0 = c"
    by (auto simp: in_run_Ch)
  from r y0 obtain u where "s0 = u @ s'" "list_all (in_class k) u" "j = j0 + length u" "c' = c0"
    using in_run_Star_Ch by blast
  with x have "x # u \<noteq> [] \<and> s = (x # u) @ s' \<and> list_all (in_class k) (x # u) \<and> j = i + length (x # u) \<and> c' = c"
    by simp
  then show ?thesis by blast
qed

lemma in_run_LazyPlus_Ch:
  "(j, s', c') \<in> set (run (LazyPlus (Ch k)) (i, s, c))
     \<Longrightarrow> \<exists>u. u \<noteq> [] \<and> s = u @ s' \<and> list_all (in_class k) u \<and> j = i + length u \<and> c' = c"
proof -
  assume "(j, s', c') \<in> set (run (LazyPlus (Ch k)) (i, s, c))"
  then obtain y where y: "y \<in> set (run (Ch k) (i, s, c))" and r: "(j, s', c') \<in> set (run (LazyStar (Ch k)) y)"
    unfolding LazyPlus_def in_run_Seq by blast
  obtain j0 s0 c0 where y0: "y = (j0, s0, c0)" by (cases y) auto
  with y obtain x where x: "s = x # s0" "in_class k x" "j0 = Suc i" "c0 = c"
    by (auto simp: in_run_Ch)
  from r y0 obtain u where "s0 = u @ s'" "list_all (in_class k) u" "j = j0 + length u" "c' = c0"
    using in_run_LazyStar_Ch by blast
  with x have "x # u \<noteq> [] \<and> s = (x # u) @ s' \<and> list_all (in_class k) (x # u) \<and> j = i + length (x # u) \<and> c' = c"
    by simp
  then show ?thesis by blast
qed

subsection \<open>The number in an amount\<close>

lemma trim_no_space: "list_all (\<lambda>c. \<not> is_space c) x \<Longrightarrow> trim x = x"
proof -
  assume a: "list_all (\<lambda>c. \<not> is_space c) x"
  then have 1: "dropWhile is_space x = x"
    by (cases x) auto
  from a have "list_all (\<lambda>c. \<not> is_space c) (rev x)"
    by (simp add: list_all_iff)
  then have 2: "dropWhile is_space (rev x) = rev x"
    by (cases "rev x") auto
  show ?thesis
    by (simp add: trim_def trim_start_def trim_end_def 1 2)
qed

lemma digit_not_space: "is_digit c \<Longrightarrow> \<not> is_space c"
  by (auto simp: is_digit_def is_space_def is_line_terminator_def)

lemma scan_unsigned_digits:
  assumes "list_all is_digit ds"
    and "f = [] \<or> (\<exists>d1 d2. f = [46, d1, d2] \<and> is_digit d1 \<and> is_digit d2)"
  shows "fst (scan_unsigned (ds @ f)) = NaN \<longleftrightarrow> ds = [] \<and> f = []"
proof -
  have inf: "take 8 (ds @ f) \<noteq> js ''Infinity''"
  proof (cases ds)
    case Nil
    with assms(2) show ?thesis by (auto simp: js_def)
  next
    case (Cons d ds')
    with assms(1) have "is_digit d" by simp
    then have "d \<noteq> 73" by (simp add: is_digit_def)
    with Cons show ?thesis by (auto simp: js_def)
  qed
  have nd: "\<not> is_digit 46" by (simp add: is_digit_def)
  from assms have tw: "takeWhile is_digit (ds @ f) = ds"
    by (auto simp: takeWhile_append2 list_all_iff nd)
  from assms have dw: "dropWhile is_digit (ds @ f) = f"
    by (auto simp: dropWhile_append2 list_all_iff nd)
  have ne: "js ''Infinity'' \<noteq> []" by (simp add: js_def)
  from assms(2) inf show ?thesis
    by (auto simp: scan_unsigned_def tw dw Let_def ne)
qed

lemma parseFloat_amount_shape:
  assumes "dl = [] \<or> dl = [36]"
    and "list_all (\<lambda>c. is_digit c \<or> c = 44) dc"
    and "f = [] \<or> (\<exists>d1 d2. f = [46, d1, d2] \<and> is_digit d1 \<and> is_digit d2)"
  shows "isNaN (parseFloat (strip_amount (dl @ dc @ f)))
           \<longleftrightarrow> list_all (\<lambda>c. c = 44) dc \<and> f = []"
proof -
  let ?p = "\<lambda>c::nat. c \<noteq> 36 \<and> c \<noteq> 44"
  let ?ds = "filter ?p dc"
  have d36: "\<not> is_digit 36" "\<not> is_digit 44" "\<not> is_digit 45" "\<not> is_digit 43"
    by (simp_all add: is_digit_def)
  from assms(2) have dig: "list_all is_digit ?ds"
    by (auto simp: list_all_iff)
  from assms(3) have ff: "filter ?p f = f"
    by (auto simp: is_digit_def)
  from assms(1) have fl: "filter ?p dl = []"
    by auto
  have filt: "filter ?p (dl @ dc @ f) = ?ds @ f"
    by (simp add: ff fl)
  from assms(3) have fsp: "list_all (\<lambda>c. \<not> is_space c) f"
    by (auto simp: digit_not_space) (simp add: is_space_def is_line_terminator_def)
  from dig have "list_all (\<lambda>c. \<not> is_space c) ?ds"
    by (auto simp: list_all_iff digit_not_space)
  with fsp have nsp: "list_all (\<lambda>c. \<not> is_space c) (?ds @ f)"
    by simp
  then have tr: "strip_amount (dl @ dc @ f) = ?ds @ f"
    by (simp add: strip_amount_def filt trim_no_space del: filter_append)
  from nsp have ts: "trim_start (?ds @ f) = ?ds @ f"
    unfolding trim_start_def by (cases "?ds @ f") auto
  have sg: "scan_signed (?ds @ f) = scan_unsigned (?ds @ f) \<or> ?ds @ f = []"
  proof (cases "?ds @ f")
    case Nil
    then show ?thesis by simp
  next
    case (Cons c r)
    have "c \<noteq> 45 \<and> c \<noteq> 43"
    proof (cases ?ds)
      case Nil
      with Cons assms(3) show ?thesis by auto
    next
      case (Cons d ds')
      with dig have "is_digit d" by simp
      moreover from Cons \<open>?ds @ f = c # r\<close> have "c = d" by simp
      ultimately show ?thesis using d36 by auto
    qed
    with Cons show ?thesis by (simp add: scan_signed_def)
  qed
  have empty: "?ds = [] \<longleftrightarrow> list_all (\<lambda>c. c = 44) dc"
    using assms(2) d36 by (auto simp: filter_empty_conv list_all_iff)
  have pf: "parseFloat (strip_amount (dl @ dc @ f)) = fst (scan_signed (?ds @ f))"
    by (simp only: parseFloat_def tr ts)
  show ?thesis
  proof (cases "?ds @ f = []")
    case True
    then have "fst (scan_signed (?ds @ f)) = NaN"
      by (simp add: scan_signed_def)
    moreover from True have "?ds = [] \<and> f = []" by simp
    ultimately show ?thesis
      unfolding isNaN_def pf using empty by blast
  next
    case False
    with sg have "scan_signed (?ds @ f) = scan_unsigned (?ds @ f)" by blast
    then have "fst (scan_signed (?ds @ f)) = NaN \<longleftrightarrow> ?ds = [] \<and> f = []"
      using scan_unsigned_digits [OF dig assms(3)] by simp
    then show ?thesis
      unfolding isNaN_def pf using empty by blast
  qed
qed

subsection \<open>The two patterns\<close>

lemma in_run_fraction:
  assumes "(j, s', c') \<in> set (run (Opt (Seqs [Ch (Lit 46), Ch Digit, Ch Digit])) (i, s, c))"
  shows "\<exists>f. s = f @ s' \<and> j = i + length f \<and> c' = c
             \<and> (f = [] \<or> (\<exists>d1 d2. f = [46, d1, d2] \<and> is_digit d1 \<and> is_digit d2))"
proof -
  from in_run_Opt [OF assms]
  consider "(j, s', c') = (i, s, c)"
    | "(j, s', c') \<in> set (run (Seqs [Ch (Lit 46), Ch Digit, Ch Digit]) (i, s, c))"
    by blast
  then show ?thesis
  proof cases
    case 1
    then show ?thesis by simp
  next
    case 2
    then obtain d1 d2 where "s = [46, d1, d2] @ s'" "is_digit d1" "is_digit d2"
        "j = i + 3" "c' = c"
      by (auto simp: in_run_Ch split: list.splits if_splits)
    then show ?thesis by force
  qed
qed

lemma in_run_amount2:
  assumes "(j, s', c') \<in> set (run (Seqs [Plus (Ch Digit),
                                          Opt (Seqs [Ch (Lit 46), Ch Digit, Ch Digit])]) (i, s, c))"
  shows "\<exists>ds f. s = ds @ f @ s' \<and> j = i + length (ds @ f) \<and> c' = c
             \<and> ds \<noteq> [] \<and> list_all is_digit ds
             \<and> (f = [] \<or> (\<exists>d1 d2. f = [46, d1, d2] \<and> is_digit d1 \<and> is_digit d2))"
proof -
  from assms obtain y
    where y: "y \<in> set (run (Plus (Ch Digit)) (i, s, c))"
      and r: "(j, s', c') \<in> set (run (Opt (Seqs [Ch (Lit 46), Ch Digit, Ch Digit])) y)"
    by (auto simp only: Seqs.simps in_run_Seq)
  obtain j0 s0 c0 where y0: "y = (j0, s0, c0)" by (cases y) auto
  from in_run_Plus_Ch [OF y [unfolded y0] ] obtain ds
    where ds: "ds \<noteq> []" "s = ds @ s0" "list_all (in_class Digit) ds" "j0 = i + length ds" "c0 = c"
    by blast
  from in_run_fraction [OF r [unfolded y0] ] obtain f
    where f: "s0 = f @ s'" "j = j0 + length f" "c' = c0"
      "f = [] \<or> (\<exists>d1 d2. f = [46, d1, d2] \<and> is_digit d1 \<and> is_digit d2)"
    by blast
  from ds(3) have "list_all is_digit ds" by (simp add: list_all_iff)
  with ds f show ?thesis by auto
qed

lemma in_run_amount1:
  assumes "(j, s', c') \<in> set (run (Seqs [Opt (Ch (Lit 36)),
                                          Plus (Ch (Union Digit (Lit 44))),
                                          Opt (Seqs [Ch (Lit 46), Ch Digit, Ch Digit])]) (i, s, c))"
  shows "\<exists>dl dc f. s = dl @ dc @ f @ s' \<and> j = i + length (dl @ dc @ f) \<and> c' = c
             \<and> (dl = [] \<or> dl = [36])
             \<and> dc \<noteq> [] \<and> list_all (\<lambda>c. is_digit c \<or> c = 44) dc
             \<and> (f = [] \<or> (\<exists>d1 d2. f = [46, d1, d2] \<and> is_digit d1 \<and> is_digit d2))"
proof -
  from assms obtain x y
    where x: "x \<in> set (run (Opt (Ch (Lit 36))) (i, s, c))"
      and y: "y \<in> set (run (Plus (Ch (Union Digit (Lit 44)))) x)"
      and r: "(j, s', c') \<in> set (run (Opt (Seqs [Ch (Lit 46), Ch Digit, Ch Digit])) y)"
    by (auto simp only: Seqs.simps in_run_Seq)
  obtain jx sx cx where x0: "x = (jx, sx, cx)" by (cases x) auto
  obtain j0 s0 c0 where y0: "y = (j0, s0, c0)" by (cases y) auto
  from in_run_Opt [OF x] x0 obtain dl
    where dl: "s = dl @ sx" "jx = i + length dl" "cx = c" "dl = [] \<or> dl = [36]"
    by (auto simp: in_run_Ch)
  from in_run_Plus_Ch [OF y [unfolded x0 y0] ] obtain dc
    where dc: "dc \<noteq> []" "sx = dc @ s0" "list_all (in_class (Union Digit (Lit 44))) dc"
      "j0 = jx + length dc" "c0 = cx"
    by blast
  from in_run_fraction [OF r [unfolded y0] ] obtain f
    where f: "s0 = f @ s'" "j = j0 + length f" "c' = c0"
      "f = [] \<or> (\<exists>d1 d2. f = [46, d1, d2] \<and> is_digit d1 \<and> is_digit d2)"
    by blast
  from dc(3) have "list_all (\<lambda>c. is_digit c \<or> c = 44) dc" by (simp add: list_all_iff)
  with dl dc f have "s = dl @ dc @ f @ s' \<and> j = i + length (dl @ dc @ f) \<and> c' = c
             \<and> (dl = [] \<or> dl = [36])
             \<and> dc \<noteq> [] \<and> list_all (\<lambda>c. is_digit c \<or> c = 44) dc
             \<and> (f = [] \<or> (\<exists>d1 d2. f = [46, d1, d2] \<and> is_digit d1 \<and> is_digit d2))"
    by simp
  then show ?thesis by blast
qed

lemma in_run_Lits2:
  "(j, s', c') \<in> set (run (Lits [a, b]) (i, s, c))
     \<longleftrightarrow> s = [a, b] @ s' \<and> j = i + 2 \<and> c' = c"
  by (auto simp: Lits_def in_run_Ch split: list.splits)

lemma in_run_Lits1:
  "(j, s', c') \<in> set (run (Lits [a]) (i, s, c))
     \<longleftrightarrow> s = [a] @ s' \<and> j = i + 1 \<and> c' = c"
  by (auto simp: Lits_def in_run_Ch split: list.splits)

lemma in_run_Lits3:
  "(j, s', c') \<in> set (run (Lits [a, b, d]) (i, s, c))
     \<longleftrightarrow> s = [a, b, d] @ s' \<and> j = i + 3 \<and> c' = c"
  by (auto simp: Lits_def in_run_Ch split: list.splits)

lemma in_run_currency:
  assumes "(j, s', c') \<in> set (run (Opt (Alt (Lits [45804, 47084]) (Alt (Lits [50896])
                                   (Alt (Lits (js ''USD'')) (Lits (js ''KRW'')))))) (i, s, c))"
  shows "\<exists>suf. s = suf @ s' \<and> j = i + length suf \<and> c' = c
               \<and> (suf = [] \<or> suf = [45804, 47084] \<or> suf = [50896]
                    \<or> suf = js ''USD'' \<or> suf = js ''KRW'')"
proof -
  have u: "js ''USD'' = [85, 83, 68]" "js ''KRW'' = [75, 82, 87]"
    by (simp_all add: js_def)
  from in_run_Opt [OF assms]
  consider "(j, s', c') = (i, s, c)"
    | "(j, s', c') \<in> set (run (Lits [45804, 47084]) (i, s, c))"
    | "(j, s', c') \<in> set (run (Lits [50896]) (i, s, c))"
    | "(j, s', c') \<in> set (run (Lits [85, 83, 68]) (i, s, c))"
    | "(j, s', c') \<in> set (run (Lits [75, 82, 87]) (i, s, c))"
    unfolding in_run_Alt u by blast
  then show ?thesis
  proof cases
    case 1
    then show ?thesis by simp
  next
    case 2
    then show ?thesis unfolding in_run_Lits2 by force
  next
    case 3
    then show ?thesis unfolding in_run_Lits1 by force
  next
    case 4
    then show ?thesis unfolding in_run_Lits3 u by force
  next
    case 5
    then show ?thesis unfolding in_run_Lits3 u by force
  qed
qed

lemma in_run_Bol: "x \<in> set (run Bol (i, s, c)) \<longleftrightarrow> x = (i, s, c) \<and> i = 0"
  by auto

lemma in_run_Eol: "x \<in> set (run Eol (i, s, c)) \<longleftrightarrow> x = (i, s, c) \<and> s = []"
  by auto

lemma in_run_head:
  assumes "x3 \<in> set (run (Plus (Ch Space)) x2)"
    and "x2 \<in> set (run (Group 1 (LazyPlus (Ch AnyChar))) x1)"
    and "x1 \<in> set (run Bol (i, s, c))"
  shows "\<exists>a sp j3 s3. x3 = (j3, s3, c(1 \<mapsto> a)) \<and> s = a @ sp @ s3 \<and> i = 0
           \<and> a \<noteq> [] \<and> list_all (\<lambda>c. \<not> is_line_terminator c) a
           \<and> sp \<noteq> [] \<and> list_all is_space sp"
proof -
  from assms(3) have x1: "x1 = (0, s, c)" and i: "i = 0"
    by (simp_all add: in_run_Bol)
  obtain j2 s2 c2 where x2: "x2 = (j2, s2, c2)" by (cases x2) auto
  obtain j3 s3 c3 where x3: "x3 = (j3, s3, c3)" by (cases x3) auto
  from assms(2) [unfolded x1 x2 in_run_Group] obtain c0
    where g: "(j2, s2, c0) \<in> set (run (LazyPlus (Ch AnyChar)) (0, s, c))"
      and c2: "c2 = c0(1 \<mapsto> take (j2 - 0) s)"
    by blast
  from in_run_LazyPlus_Ch [OF g] obtain a
    where a: "a \<noteq> []" "s = a @ s2" "list_all (in_class AnyChar) a" "j2 = 0 + length a" "c0 = c"
    by blast
  from a c2 have c2': "c2 = c(1 \<mapsto> a)" by simp
  from in_run_Plus_Ch [OF assms(1) [unfolded x2 x3] ] obtain sp
    where sp: "sp \<noteq> []" "s2 = sp @ s3" "list_all (in_class Space) sp" "c3 = c2"
    by blast
  from a(3) have "list_all (\<lambda>c. \<not> is_line_terminator c) a" by (simp add: list_all_iff)
  moreover from sp(3) have "list_all is_space sp" by (simp add: list_all_iff)
  ultimately have "x3 = (j3, s3, c(1 \<mapsto> a)) \<and> s = a @ sp @ s3 \<and> i = 0
           \<and> a \<noteq> [] \<and> list_all (\<lambda>c. \<not> is_line_terminator c) a
           \<and> sp \<noteq> [] \<and> list_all is_space sp"
    using x3 a sp c2' i by simp
  then show ?thesis by blast
qed

lemma in_run_pattern2:
  assumes "(j, s', c') \<in> set (run pattern2 (i, s, c))"
  shows "\<exists>a sp ds f ws. s = a @ sp @ (ds @ f) @ ws \<and> i = 0 \<and> s' = []
           \<and> c' = c(1 \<mapsto> a, 2 \<mapsto> ds @ f)
           \<and> a \<noteq> [] \<and> list_all (\<lambda>c. \<not> is_line_terminator c) a
           \<and> sp \<noteq> [] \<and> list_all is_space sp
           \<and> ds \<noteq> [] \<and> list_all is_digit ds
           \<and> (f = [] \<or> (\<exists>d1 d2. f = [46, d1, d2] \<and> is_digit d1 \<and> is_digit d2))
           \<and> list_all is_space ws"
proof -
  from assms obtain x1 x2 x3 x4 x5
    where x1: "x1 \<in> set (run Bol (i, s, c))"
      and x2: "x2 \<in> set (run (Group 1 (LazyPlus (Ch AnyChar))) x1)"
      and x3: "x3 \<in> set (run (Plus (Ch Space)) x2)"
      and x4: "x4 \<in> set (run (Group 2 (Seqs [Plus (Ch Digit),
                   Opt (Seqs [Ch (Lit 46), Ch Digit, Ch Digit])])) x3)"
      and x5: "x5 \<in> set (run (Star (Ch Space)) x4)"
      and x6: "(j, s', c') \<in> set (run Eol x5)"
    by (auto simp only: pattern2_def Seqs.simps in_run_Seq)
  from in_run_head [OF x3 x2 x1] obtain a sp j3 s3
    where h: "x3 = (j3, s3, c(1 \<mapsto> a))" "s = a @ sp @ s3" "i = 0"
      "a \<noteq> []" "list_all (\<lambda>c. \<not> is_line_terminator c) a" "sp \<noteq> []" "list_all is_space sp"
    by blast
  obtain j4 s4 c4 where y4: "x4 = (j4, s4, c4)" by (cases x4) auto
  obtain j5 s5 c5 where y5: "x5 = (j5, s5, c5)" by (cases x5) auto
  from x4 [unfolded h(1) y4 in_run_Group] obtain c0
    where g: "(j4, s4, c0) \<in> set (run (Seqs [Plus (Ch Digit),
                   Opt (Seqs [Ch (Lit 46), Ch Digit, Ch Digit])]) (j3, s3, c(1 \<mapsto> a)))"
      and c4: "c4 = c0(2 \<mapsto> take (j4 - j3) s3)"
    by blast
  from in_run_amount2 [OF g] obtain ds f
    where m: "s3 = ds @ f @ s4" "j4 = j3 + length (ds @ f)" "c0 = c(1 \<mapsto> a)"
      "ds \<noteq> []" "list_all is_digit ds"
      "f = [] \<or> (\<exists>d1 d2. f = [46, d1, d2] \<and> is_digit d1 \<and> is_digit d2)"
    by blast
  from m(1,2) have "take (j4 - j3) s3 = ds @ f" by simp
  with c4 m(3) have c4': "c4 = c(1 \<mapsto> a, 2 \<mapsto> ds @ f)" by simp
  from in_run_Star_Ch [OF x5 [unfolded y4 y5] ] obtain ws
    where ws: "s4 = ws @ s5" "list_all (in_class Space) ws" "c5 = c4"
    by blast
  from x6 [unfolded y5 in_run_Eol] have e: "s' = []" "s5 = []" "c' = c5"
    by simp_all
  from ws(2) have "list_all is_space ws" by (simp add: list_all_iff)
  with h m ws e c4' have "s = a @ sp @ (ds @ f) @ ws \<and> i = 0 \<and> s' = []
           \<and> c' = c(1 \<mapsto> a, 2 \<mapsto> ds @ f)
           \<and> a \<noteq> [] \<and> list_all (\<lambda>c. \<not> is_line_terminator c) a
           \<and> sp \<noteq> [] \<and> list_all is_space sp
           \<and> ds \<noteq> [] \<and> list_all is_digit ds
           \<and> (f = [] \<or> (\<exists>d1 d2. f = [46, d1, d2] \<and> is_digit d1 \<and> is_digit d2))
           \<and> list_all is_space ws"
    by simp
  then show ?thesis by blast
qed

lemma in_run_pattern1:
  assumes "(j, s', c') \<in> set (run pattern1 (i, s, c))"
  shows "\<exists>a sp dl dc f ws suf. s = a @ sp @ (dl @ dc @ f) @ ws @ suf \<and> i = 0 \<and> s' = []
           \<and> c' = c(1 \<mapsto> a, 2 \<mapsto> dl @ dc @ f)
           \<and> a \<noteq> [] \<and> list_all (\<lambda>c. \<not> is_line_terminator c) a
           \<and> sp \<noteq> [] \<and> list_all is_space sp
           \<and> (dl = [] \<or> dl = [36])
           \<and> dc \<noteq> [] \<and> list_all (\<lambda>c. is_digit c \<or> c = 44) dc
           \<and> (f = [] \<or> (\<exists>d1 d2. f = [46, d1, d2] \<and> is_digit d1 \<and> is_digit d2))
           \<and> list_all is_space ws
           \<and> (suf = [] \<or> suf = [45804, 47084] \<or> suf = [50896]
                \<or> suf = js ''USD'' \<or> suf = js ''KRW'')"
proof -
  from assms obtain x1 x2 x3 x4 x5 x6
    where x1: "x1 \<in> set (run Bol (i, s, c))"
      and x2: "x2 \<in> set (run (Group 1 (LazyPlus (Ch AnyChar))) x1)"
      and x3: "x3 \<in> set (run (Plus (Ch Space)) x2)"
      and x4: "x4 \<in> set (run (Group 2 (Seqs [Opt (Ch (Lit 36)),
                   Plus (Ch (Union Digit (Lit 44))),
                   Opt (Seqs [Ch (Lit 46), Ch Digit, Ch Digit])])) x3)"
      and x5: "x5 \<in> set (run (Star (Ch Space)) x4)"
      and x6: "x6 \<in> set (run (Opt (Alt (Lits [45804, 47084]) (Alt (Lits [50896])
                                   (Alt (Lits (js ''USD'')) (Lits (js ''KRW'')))))) x5)"
      and x7: "(j, s', c') \<in> set (run Eol x6)"
    by (auto simp only: pattern1_def Seqs.simps in_run_Seq)
  from in_run_head [OF x3 x2 x1] obtain a sp j3 s3
    where h: "x3 = (j3, s3, c(1 \<mapsto> a))" "s = a @ sp @ s3" "i = 0"
      "a \<noteq> []" "list_all (\<lambda>c. \<not> is_line_terminator c) a" "sp \<noteq> []" "list_all is_space sp"
    by blast
  obtain j4 s4 c4 where y4: "x4 = (j4, s4, c4)" by (cases x4) auto
  obtain j5 s5 c5 where y5: "x5 = (j5, s5, c5)" by (cases x5) auto
  obtain j6 s6 c6 where y6: "x6 = (j6, s6, c6)" by (cases x6) auto
  from x4 [unfolded h(1) y4 in_run_Group] obtain c0
    where g: "(j4, s4, c0) \<in> set (run (Seqs [Opt (Ch (Lit 36)),
                   Plus (Ch (Union Digit (Lit 44))),
                   Opt (Seqs [Ch (Lit 46), Ch Digit, Ch Digit])]) (j3, s3, c(1 \<mapsto> a)))"
      and c4: "c4 = c0(2 \<mapsto> take (j4 - j3) s3)"
    by blast
  from in_run_amount1 [OF g] obtain dl dc f
    where m: "s3 = dl @ dc @ f @ s4" "j4 = j3 + length (dl @ dc @ f)" "c0 = c(1 \<mapsto> a)"
      "dl = [] \<or> dl = [36]"
      "dc \<noteq> []" "list_all (\<lambda>c. is_digit c \<or> c = 44) dc"
      "f = [] \<or> (\<exists>d1 d2. f = [46, d1, d2] \<and> is_digit d1 \<and> is_digit d2)"
    by blast
  from m(1,2) have "take (j4 - j3) s3 = dl @ dc @ f" by simp
  with c4 m(3) have c4': "c4 = c(1 \<mapsto> a, 2 \<mapsto> dl @ dc @ f)" by simp
  from in_run_Star_Ch [OF x5 [unfolded y4 y5] ] obtain ws
    where ws: "s4 = ws @ s5" "list_all (in_class Space) ws" "c5 = c4"
    by blast
  from in_run_currency [OF x6 [unfolded y5 y6] ] obtain suf
    where suf: "s5 = suf @ s6" "c6 = c5"
      "suf = [] \<or> suf = [45804, 47084] \<or> suf = [50896] \<or> suf = js ''USD'' \<or> suf = js ''KRW''"
    by blast
  from x7 [unfolded y6 in_run_Eol] have e: "s' = []" "s6 = []" "c' = c6"
    by simp_all
  from ws(2) have "list_all is_space ws" by (simp add: list_all_iff)
  with h m ws(1,3) suf e c4' have "s = a @ sp @ (dl @ dc @ f) @ ws @ suf \<and> i = 0 \<and> s' = []
           \<and> c' = c(1 \<mapsto> a, 2 \<mapsto> dl @ dc @ f)
           \<and> a \<noteq> [] \<and> list_all (\<lambda>c. \<not> is_line_terminator c) a
           \<and> sp \<noteq> [] \<and> list_all is_space sp
           \<and> (dl = [] \<or> dl = [36])
           \<and> dc \<noteq> [] \<and> list_all (\<lambda>c. is_digit c \<or> c = 44) dc
           \<and> (f = [] \<or> (\<exists>d1 d2. f = [46, d1, d2] \<and> is_digit d1 \<and> is_digit d2))
           \<and> list_all is_space ws
           \<and> (suf = [] \<or> suf = [45804, 47084] \<or> suf = [50896]
                \<or> suf = js ''USD'' \<or> suf = js ''KRW'')"
    by simp
  then show ?thesis by blast
qed

lemma drop_trailing_space:
  assumes "\<not> is_space x" and "list_all is_space ws"
  shows "dropWhile is_space (rev (pre @ [x] @ ws)) = x # rev pre"
proof -
  from assms(2) have "\<And>y. y \<in> set (rev ws) \<Longrightarrow> is_space y"
    by (simp add: list_all_iff)
  then have "dropWhile is_space (rev ws @ x # rev pre) = dropWhile is_space (x # rev pre)"
    by (rule dropWhile_append2)
  with assms(1) show ?thesis by simp
qed

lemma last_visible_unique:
  assumes "pre1 @ [x] @ ws1 = pre2 @ [y] @ ws2"
    and "\<not> is_space x" "list_all is_space ws1"
    and "\<not> is_space y" "list_all is_space ws2"
  shows "x = y"
proof -
  have "x # rev pre1 = dropWhile is_space (rev (pre1 @ [x] @ ws1))"
    using drop_trailing_space [OF assms(2,3)] by simp
  also have "\<dots> = dropWhile is_space (rev (pre2 @ [y] @ ws2))"
    by (simp only: assms(1))
  also have "\<dots> = y # rev pre2"
    using drop_trailing_space [OF assms(4,5)] by simp
  finally show ?thesis by simp
qed

lemma exec_from_Some:
  "exec_from r i s = Some (w, g)
     \<Longrightarrow> \<exists>k j s'. (j, s', g) \<in> set (run r (i + k, drop k s, Map.empty))"
proof (induction s arbitrary: i)
  case Nil
  then have "\<exists>j s'. (j, s', g) \<in> set (run r (i + 0, drop 0 [], Map.empty))"
    by (cases "run r (i, [], Map.empty)") auto
  then show ?case by blast
next
  case (Cons x xs)
  show ?case
  proof (cases "run r (i, x # xs, Map.empty)")
    case Nil
    with Cons.prems have "exec_from r (Suc i) xs = Some (w, g)" by simp
    from Cons.IH [OF this] obtain k j s'
      where "(j, s', g) \<in> set (run r (Suc i + k, drop k xs, Map.empty))" by blast
    then have "(j, s', g) \<in> set (run r (i + Suc k, drop (Suc k) (x # xs), Map.empty))"
      by simp
    then show ?thesis by blast
  next
    case (Cons st rest)
    with Cons.prems have "\<exists>j s'. (j, s', g) \<in> set (run r (i + 0, drop 0 (x # xs), Map.empty))"
      by (cases st) auto
    then show ?thesis by blast
  qed
qed

lemma exec_pattern1_Some:
  assumes "exec pattern1 t = Some (w, g)"
  shows "\<exists>a sp dl dc f ws suf. t = a @ sp @ (dl @ dc @ f) @ ws @ suf
           \<and> g = [1 \<mapsto> a, 2 \<mapsto> dl @ dc @ f]
           \<and> a \<noteq> [] \<and> list_all (\<lambda>c. \<not> is_line_terminator c) a
           \<and> sp \<noteq> [] \<and> list_all is_space sp
           \<and> (dl = [] \<or> dl = [36])
           \<and> dc \<noteq> [] \<and> list_all (\<lambda>c. is_digit c \<or> c = 44) dc
           \<and> (f = [] \<or> (\<exists>d1 d2. f = [46, d1, d2] \<and> is_digit d1 \<and> is_digit d2))
           \<and> list_all is_space ws
           \<and> (suf = [] \<or> suf = [45804, 47084] \<or> suf = [50896]
                \<or> suf = js ''USD'' \<or> suf = js ''KRW'')"
proof -
  from exec_from_Some [OF assms [unfolded exec_def] ] obtain k j s'
    where m: "(j, s', g) \<in> set (run pattern1 (0 + k, drop k t, Map.empty))" by blast
  from in_run_pattern1 [OF m] have "0 + k = 0" by blast
  then have "k = 0" by simp
  with m have "(j, s', g) \<in> set (run pattern1 (0, t, Map.empty))" by simp
  from in_run_pattern1 [OF this] show ?thesis by blast
qed

lemma exec_pattern2_Some:
  assumes "exec pattern2 t = Some (w, g)"
  shows "\<exists>a sp ds f ws. t = a @ sp @ (ds @ f) @ ws
           \<and> g = [1 \<mapsto> a, 2 \<mapsto> ds @ f]
           \<and> a \<noteq> [] \<and> list_all (\<lambda>c. \<not> is_line_terminator c) a
           \<and> sp \<noteq> [] \<and> list_all is_space sp
           \<and> ds \<noteq> [] \<and> list_all is_digit ds
           \<and> (f = [] \<or> (\<exists>d1 d2. f = [46, d1, d2] \<and> is_digit d1 \<and> is_digit d2))
           \<and> list_all is_space ws"
proof -
  from exec_from_Some [OF assms [unfolded exec_def] ] obtain k j s'
    where m: "(j, s', g) \<in> set (run pattern2 (0 + k, drop k t, Map.empty))" by blast
  from in_run_pattern2 [OF m] have "0 + k = 0" by blast
  then have "k = 0" by simp
  with m have "(j, s', g) \<in> set (run pattern2 (0, t, Map.empty))" by simp
  from in_run_pattern2 [OF this] show ?thesis by blast
qed

lemma pattern2_amount_is_number:
  assumes "ds \<noteq> []" and "list_all is_digit ds"
    and "f = [] \<or> (\<exists>d1 d2. f = [46, d1, d2] \<and> is_digit d1 \<and> is_digit d2)"
  shows "\<not> isNaN (parseFloat (strip_amount (ds @ f)))"
proof -
  from assms(2) have dc: "list_all (\<lambda>c. is_digit c \<or> c = 44) ds"
    by (simp add: list_all_iff)
  from assms(1,2) have "is_digit (hd ds)" by (cases ds) auto
  then have "hd ds \<noteq> 44" by (auto simp: is_digit_def)
  with assms(1) have "\<not> list_all (\<lambda>c. c = 44) ds" by (cases ds) auto
  with parseFloat_amount_shape [of "[]" ds f, OF _ dc assms(3)] show ?thesis by simp
qed

lemma ends_in_digit:
  assumes "ds \<noteq> []" and "list_all is_digit ds"
    and "f = [] \<or> (\<exists>d1 d2. f = [46, d1, d2] \<and> is_digit d1 \<and> is_digit d2)"
  shows "\<exists>pre d. ds @ f = pre @ [d] \<and> is_digit d"
proof (cases "f = []")
  case True
  from assms(1,2) have "is_digit (last ds)" by (simp add: list_all_iff)
  moreover from assms(1) have "ds @ f = butlast ds @ [last ds]" using True by simp
  ultimately show ?thesis by blast
next
  case False
  with assms(3) obtain d1 d2 where "f = [46, d1, d2]" "is_digit d2" by blast
  then have "ds @ f = (ds @ [46, d1]) @ [d2] \<and> is_digit d2" by simp
  then show ?thesis by blast
qed

lemma ends_without_digit:
  assumes "dc \<noteq> []" and "list_all (\<lambda>c. c = 44) dc" and "list_all is_space ws"
    and "suf = [] \<or> suf = [45804, 47084] \<or> suf = [50896] \<or> suf = js ''USD'' \<or> suf = js ''KRW''"
  shows "\<exists>pre x ws'. dc @ ws @ suf = pre @ [x] @ ws' \<and> \<not> is_digit x \<and> \<not> is_space x
            \<and> list_all is_space ws'"
proof (cases "suf = []")
  case True
  from assms(1,2) have "last dc = 44" by (simp add: list_all_iff)
  with assms(1) have "dc @ ws @ suf = butlast dc @ [44] @ ws" using True
    by (metis append.assoc append_Nil2 append_butlast_last_id)
  moreover have "\<not> is_digit 44" "\<not> is_space 44"
    by (simp_all add: is_digit_def is_space_def is_line_terminator_def)
  ultimately show ?thesis using assms(3) by blast
next
  case False
  with assms(4) obtain p x where "suf = p @ [x]" "x = 47084 \<or> x = 50896 \<or> x = 68 \<or> x = 87"
    by (auto simp: js_def)
  then have "dc @ ws @ suf = (dc @ ws @ p) @ [x] @ [] \<and> \<not> is_digit x \<and> \<not> is_space x
               \<and> list_all is_space []"
    by (auto simp: is_digit_def is_space_def is_line_terminator_def)
  then show ?thesis by blast
qed

subsection \<open>No match\<close>

lemma pattern1_bad_amount_blocks_pattern2:
  assumes "exec pattern1 t = Some (w, g)"
    and "g 2 = Some g2"
    and "isNaN (parseFloat (strip_amount g2))"
  shows "exec pattern2 t = None"
proof (rule ccontr)
  assume "exec pattern2 t \<noteq> None"
  then obtain w' g' where e2: "exec pattern2 t = Some (w', g')" by auto
  from exec_pattern1_Some [OF assms(1)] obtain a sp dl dc f ws suf
    where p1: "t = a @ sp @ (dl @ dc @ f) @ ws @ suf" "g = [1 \<mapsto> a, 2 \<mapsto> dl @ dc @ f]"
      "dl = [] \<or> dl = [36]" "dc \<noteq> []" "list_all (\<lambda>c. is_digit c \<or> c = 44) dc"
      "f = [] \<or> (\<exists>d1 d2. f = [46, d1, d2] \<and> is_digit d1 \<and> is_digit d2)"
      "list_all is_space ws"
      "suf = [] \<or> suf = [45804, 47084] \<or> suf = [50896] \<or> suf = js ''USD'' \<or> suf = js ''KRW''"
    by blast
  from p1(2) assms(2) have "g2 = dl @ dc @ f" by simp
  with assms(3) parseFloat_amount_shape [OF p1(3) p1(5) p1(6)]
  have commas: "list_all (\<lambda>c. c = 44) dc" and f: "f = []" by simp_all
  from ends_without_digit [OF p1(4) commas p1(7) p1(8)] obtain pre x ws1
    where e1: "dc @ ws @ suf = pre @ [x] @ ws1" "\<not> is_digit x" "\<not> is_space x"
      "list_all is_space ws1"
    by blast
  from p1(1) f e1(1) have t1: "t = (a @ sp @ dl @ pre) @ [x] @ ws1" by simp
  from exec_pattern2_Some [OF e2] obtain a' sp' ds f' ws'
    where p2: "t = a' @ sp' @ (ds @ f') @ ws'" "ds \<noteq> []" "list_all is_digit ds"
      "f' = [] \<or> (\<exists>d1 d2. f' = [46, d1, d2] \<and> is_digit d1 \<and> is_digit d2)"
      "list_all is_space ws'"
    by blast
  from ends_in_digit [OF p2(2) p2(3) p2(4)] obtain pre' d
    where d: "ds @ f' = pre' @ [d]" "is_digit d" by blast
  from p2(1) d(1) have t2: "t = (a' @ sp' @ pre') @ [d] @ ws'" by simp
  from t1 t2 have "(a @ sp @ dl @ pre) @ [x] @ ws1 = (a' @ sp' @ pre') @ [d] @ ws'" by simp
  from last_visible_unique [OF this e1(3) e1(4) digit_not_space [OF d(2)] p2(5)]
  have "x = d" .
  with e1(2) d(2) show False by simp
qed

lemma pattern2_amount_parses:
  assumes "exec pattern2 t = Some (w, g)" and "g 2 = Some g2"
  shows "\<not> isNaN (parseFloat (strip_amount g2))"
proof -
  from exec_pattern2_Some [OF assms(1)] obtain a sp ds f ws
    where p2: "g = [1 \<mapsto> a, 2 \<mapsto> ds @ f]" "ds \<noteq> []" "list_all is_digit ds"
      "f = [] \<or> (\<exists>d1 d2. f = [46, d1, d2] \<and> is_digit d1 \<and> is_digit d2)"
    by blast
  from p2(1) assms(2) have "g2 = ds @ f" by simp
  with pattern2_amount_is_number [OF p2(2) p2(3) p2(4)] show ?thesis by simp
qed

lemma pattern_groups_defined:
  assumes "r = pattern1 \<or> r = pattern2" and "exec r t = Some (w, g)"
  shows "\<exists>g1 g2. g 1 = Some g1 \<and> g 2 = Some g2"
  using assms exec_pattern1_Some [of t w g] exec_pattern2_Some [of t w g] by auto

lemma parse_loop_no_match:
  "exec p (trim tx) = None \<Longrightarrow> parse_loop (p # ps) tx = parse_loop ps tx"
  by simp

lemma parse_loop_bad_amount:
  assumes "exec p (trim tx) = Some (w, g)" and "g 1 = Some g1" and "g 2 = Some g2"
    and "isNaN (parseFloat (strip_amount g2))"
  shows "parse_loop (p # ps) tx = parse_loop ps tx"
  using assms by (simp add: Let_def)

lemma parse_loop_good_amount:
  assumes "exec p (trim tx) = Some (w, g)" and "g 1 = Some g1" and "g 2 = Some g2"
    and "\<not> isNaN (parseFloat (strip_amount g2))"
  shows "parse_loop (p # ps) tx
           = Inr (Some \<lparr>programName = trim g1, amount = parseFloat (strip_amount g2)\<rparr>)"
  using assms by (simp add: Let_def)

text \<open>
  Claim C5. The parser returns null when neither pattern matches the trimmed input, and
  when a pattern matches but the amount that it extracts, stripped of dollar signs and
  commas, does not parse as a number (the second pattern cannot match such an input
  either); "just text" is such an input.
\<close>

theorem no_match_or_bad_amount_gives_null:
  "((\<forall>r \<in> set patterns. exec r (trim tx) = None) \<longrightarrow> parseInput tx = Inr None)
   \<and> (r \<in> set patterns \<and> exec r (trim ty) = Some (whole, groups) \<and> groups 2 = Some g2
        \<and> isNaN (parseFloat (strip_amount g2))
        \<longrightarrow> parseInput ty = Inr None)
   \<and> parseInput (js ''just text'') = Inr None"
proof (intro conjI impI)
  assume "\<forall>r \<in> set patterns. exec r (trim tx) = None"
  then show "parseInput tx = Inr None"
    by (simp add: parseInput_def patterns_def)
next
  assume a: "r \<in> set patterns \<and> exec r (trim ty) = Some (whole, groups) \<and> groups 2 = Some g2
        \<and> isNaN (parseFloat (strip_amount g2))"
  then have r: "r = pattern1 \<or> r = pattern2" by (simp add: patterns_def)
  from a have e: "exec r (trim ty) = Some (whole, groups)" and g: "groups 2 = Some g2"
    and n: "isNaN (parseFloat (strip_amount g2))" by simp_all
  from pattern2_amount_parses n g e have "r \<noteq> pattern2" by blast
  with r have r1: "r = pattern1" by simp
  from pattern_groups_defined [OF r e] g obtain g1 where g1: "groups 1 = Some g1" by blast
  from pattern1_bad_amount_blocks_pattern2 [OF e [unfolded r1] g n]
  have e2: "exec pattern2 (trim ty) = None" .
  from e r1 have e1: "exec pattern1 (trim ty) = Some (whole, groups)" by simp
  have "parse_loop [pattern1, pattern2] ty = parse_loop [pattern2] ty"
    by (rule parse_loop_bad_amount [OF e1 g1 g n])
  also have "\<dots> = parse_loop [] ty"
    by (rule parse_loop_no_match [OF e2])
  finally have "parse_loop [pattern1, pattern2] ty = Inr None"
    by simp
  then show "parseInput ty = Inr None"
    unfolding parseInput_def patterns_def .
next
  show "parseInput (js ''just text'') = Inr None"
    by (rule parse_just_text)
qed

theorem no_match_or_bad_amount_gives_null_witness:
  "exec pattern1 (trim (js ''just text'')) = None
   \<and> exec pattern2 (trim (js ''just text'')) = None
   \<and> parseInput (js ''just text'') = Inr None
   \<and> pattern1 \<in> set patterns
   \<and> exec pattern1 (trim (js ''a ,'')) = Some (js ''a ,'', [1 \<mapsto> js ''a'', 2 \<mapsto> js '',''])
   \<and> isNaN (parseFloat (strip_amount (js '','')))
   \<and> parseInput (js ''a ,'') = Inr None"
proof -
  have a1: "exec pattern1 (trim (js ''just text'')) = None"
    and a2: "exec pattern2 (trim (js ''just text'')) = None"
    by (simp_all add: parse_eval)
  from a1 a2 have a: "\<forall>r \<in> set patterns. exec r (trim (js ''just text'')) = None"
    by (simp add: patterns_def)
  have b: "pattern1 \<in> set patterns"
    by (simp add: patterns_def)
  have c: "exec pattern1 (trim (js ''a ,'')) = Some (js ''a ,'', [1 \<mapsto> js ''a'', 2 \<mapsto> js '',''])"
    by (simp add: parse_eval)
  have d: "isNaN (parseFloat (strip_amount (js '','')))"
    by (simp add: parse_eval)
  show ?thesis
    using a a1 a2 b c d
      no_match_or_bad_amount_gives_null
        [of "js ''just text''" pattern1 "js ''a ,''" "js ''a ,''"
            "[1 \<mapsto> js ''a'', 2 \<mapsto> js '','']" "js '',''"]
    by simp
qed

lemma parseInput_never_throws: "\<exists>r. parseInput tx = Inr r"
proof -
  have last: "\<exists>r. parse_loop [pattern2] tx = Inr r"
  proof (cases "exec pattern2 (trim tx)")
    case None
    then show ?thesis by simp
  next
    case (Some m)
    obtain w g where m: "exec pattern2 (trim tx) = Some (w, g)"
      using Some by (cases m) auto
    from pattern_groups_defined [OF _ m] obtain g1 g2
      where gs: "g 1 = Some g1" "g 2 = Some g2" by blast
    from parse_loop_good_amount [OF m gs pattern2_amount_parses [OF m gs(2)] ]
    show ?thesis by blast
  qed
  show ?thesis
  proof (cases "exec pattern1 (trim tx)")
    case None
    from parse_loop_no_match [OF None] last show ?thesis
      unfolding parseInput_def patterns_def by metis
  next
    case (Some m)
    obtain w g where m: "exec pattern1 (trim tx) = Some (w, g)"
      using Some by (cases m) auto
    from pattern_groups_defined [OF _ m] obtain g1 g2
      where gs: "g 1 = Some g1" "g 2 = Some g2" by blast
    show ?thesis
    proof (cases "isNaN (parseFloat (strip_amount g2))")
      case False
      from parse_loop_good_amount [OF m gs False] show ?thesis
        unfolding parseInput_def patterns_def by blast
    next
      case True
      from parse_loop_bad_amount [OF m gs True] last show ?thesis
        unfolding parseInput_def patterns_def by metis
    qed
  qed
qed

lemma trim_end_keeps_head:
  assumes "y \<noteq> []" and "\<not> is_space (hd y)"
  shows "\<exists>z. trim_end y = hd y # z"
proof -
  from assms(1) obtain h t where y: "y = h # t" by (cases y) auto
  with assms(2) have h: "\<not> is_space h" by simp
  have "dropWhile is_space (rev t @ [h]) =
          (if \<forall>x \<in> set (rev t). is_space x then [h] else dropWhile is_space (rev t) @ [h])"
    using h by (simp add: dropWhile_append)
  then have "\<exists>z. dropWhile is_space (rev t @ [h]) = z @ [h]"
    by (metis append_Nil)
  then obtain z where "dropWhile is_space (rev (h # t)) = z @ [h]" by auto
  then have "trim_end (h # t) = h # rev z"
    by (simp add: trim_end_def)
  with y show ?thesis by simp
qed

lemma trim_head_visible:
  assumes "trim s \<noteq> []"
  shows "\<not> is_space (hd (trim s))"
proof -
  from assms have ne: "trim_start s \<noteq> []"
    by (auto simp: trim_def trim_end_def)
  then have v: "\<not> is_space (hd (trim_start s))"
    unfolding trim_start_def by (rule hd_dropWhile)
  from trim_end_keeps_head [OF ne v] obtain z
    where "trim s = hd (trim_start s) # z"
    unfolding trim_def by blast
  with v show ?thesis by simp
qed

lemma trim_visible_head_nonempty:
  assumes "a \<noteq> []" and "\<not> is_space (hd a)"
  shows "trim a \<noteq> []"
proof -
  from assms have "trim_start a = a"
    unfolding trim_start_def by (cases a) auto
  with trim_end_keeps_head [OF assms] show ?thesis
    unfolding trim_def by auto
qed

lemma pattern_first_group:
  assumes "r = pattern1 \<or> r = pattern2" and "exec r t = Some (w, g)"
  shows "\<exists>a rest g2. g 1 = Some a \<and> g 2 = Some g2 \<and> a \<noteq> [] \<and> t = a @ rest"
proof -
  from assms consider "exec pattern1 t = Some (w, g)" | "exec pattern2 t = Some (w, g)"
    by auto
  then show ?thesis
  proof cases
    case 1
    from exec_pattern1_Some [OF 1] obtain a sp dl dc f ws suf
      where "t = a @ sp @ (dl @ dc @ f) @ ws @ suf" "g = [1 \<mapsto> a, 2 \<mapsto> dl @ dc @ f]" "a \<noteq> []"
      by blast
    then have "g 1 = Some a \<and> g 2 = Some (dl @ dc @ f) \<and> a \<noteq> []
                 \<and> t = a @ (sp @ (dl @ dc @ f) @ ws @ suf)"
      by simp
    then show ?thesis by blast
  next
    case 2
    from exec_pattern2_Some [OF 2] obtain a sp ds f ws
      where "t = a @ sp @ (ds @ f) @ ws" "g = [1 \<mapsto> a, 2 \<mapsto> ds @ f]" "a \<noteq> []"
      by blast
    then have "g 1 = Some a \<and> g 2 = Some (ds @ f) \<and> a \<noteq> []
                 \<and> t = a @ (sp @ (ds @ f) @ ws)"
      by simp
    then show ?thesis by blast
  qed
qed

lemma parse_loop_result:
  assumes "parse_loop ps tx = Inr (Some p)"
  shows "\<exists>r w g g1 g2. r \<in> set ps \<and> exec r (trim tx) = Some (w, g)
           \<and> g 1 = Some g1 \<and> g 2 = Some g2
           \<and> p = \<lparr>programName = trim g1, amount = parseFloat (strip_amount g2)\<rparr>
           \<and> \<not> isNaN (parseFloat (strip_amount g2))"
  using assms
proof (induction ps)
  case Nil
  then show ?case by simp
next
  case (Cons q qs)
  show ?case
  proof (cases "parse_loop qs tx = Inr (Some p)")
    case True
    from Cons.IH [OF True] show ?thesis by auto
  next
    case False
    with Cons.prems obtain w g g1 g2
      where "exec q (trim tx) = Some (w, g)" "g 1 = Some g1" "g 2 = Some g2"
        "\<not> isNaN (parseFloat (strip_amount g2))"
        "p = \<lparr>programName = trim g1, amount = parseFloat (strip_amount g2)\<rparr>"
      by (auto simp: Let_def split: option.splits if_splits)
    then show ?thesis by auto
  qed
qed

lemma parseInput_result:
  assumes "parseInput tx = Inr (Some p)"
  shows "programName p \<noteq> [] \<and> amount p \<noteq> NaN"
proof -
  from parse_loop_result [OF assms [unfolded parseInput_def] ] obtain r w g g1 g2
    where r: "r \<in> set patterns" and e: "exec r (trim tx) = Some (w, g)"
      and g: "g 1 = Some g1" "g 2 = Some g2"
      and p: "p = \<lparr>programName = trim g1, amount = parseFloat (strip_amount g2)\<rparr>"
      and n: "\<not> isNaN (parseFloat (strip_amount g2))"
    by blast
  from r have "r = pattern1 \<or> r = pattern2" by (simp add: patterns_def)
  from pattern_first_group [OF this e] g obtain rest
    where a: "g1 \<noteq> []" "trim tx = g1 @ rest" by auto
  then have "trim tx \<noteq> []" "hd (trim tx) = hd g1" by simp_all
  with trim_head_visible [of tx] have "\<not> is_space (hd g1)" by simp
  from trim_visible_head_nonempty [OF a(1) this] n p show ?thesis
    by (simp add: isNaN_def)
qed

section \<open>Properties of the appender and the resolver\<close>

lemma events_emit: "events (emit ev w) = events w @ [ev]"
  by (simp add: emit_def)

lemma ledger_emit: "ledger (emit ev w) = ledger w"
  by (simp add: emit_def)

lemma sheets_append_cases:
  "sheets_append e rq w =
     (if sheets_accepts e rq
      then (Inr (), (emit (Sheets_append rq) w)\<lparr>ledger := ledger w @ resource_values rq\<rparr>)
      else (Inl ApiError, emit (Sheets_append rq) w))"
  by (simp add: sheets_append_def Let_def ledger_emit)

lemma addToSpreadsheet_cases:
  "addToSpreadsheet e purchaser item amt date w =
     (if sheets_accepts e
           \<lparr>spreadsheetId = GOOGLE_SHEETS_ID e, sheet_range = js ''Sheet1!A:E'',
            valueInputOption = js ''USER_ENTERED'',
            resource_values = [ [String date, purchaser, String item, Number amt, String []] ]\<rparr>
      then (Inr True,
            \<lparr>ledger = ledger w @ [ [String date, purchaser, String item, Number amt, String []] ],
             events = events w @
               [Sheets_append
                  \<lparr>spreadsheetId = GOOGLE_SHEETS_ID e, sheet_range = js ''Sheet1!A:E'',
                   valueInputOption = js ''USER_ENTERED'',
                   resource_values = [ [String date, purchaser, String item, Number amt, String []] ]\<rparr>,
                Console_log]\<rparr>)
      else (Inr False,
            \<lparr>ledger = ledger w,
             events = events w @
               [Sheets_append
                  \<lparr>spreadsheetId = GOOGLE_SHEETS_ID e, sheet_range = js ''Sheet1!A:E'',
                   valueInputOption = js ''USER_ENTERED'',
                   resource_values = [ [String date, purchaser, String item, Number amt, String []] ]\<rparr>,
                Console_error]\<rparr>))"
  by (simp add: addToSpreadsheet_def sheets_append_cases Let_def emit_def)

text \<open>
  Claim C8. For every purchaser, item, amount and date the appender builds the request
  with the single row of date, purchaser, item, amount and the empty string, and it
  returns a boolean, never an error: true when the service accepted the append (the row
  is then the last of the sheet), false when it refused.
\<close>

theorem addToSpreadsheet_row_and_result:
  "addToSpreadsheet e purchaser item amt date w =
     (let rq = \<lparr>spreadsheetId = GOOGLE_SHEETS_ID e, sheet_range = js ''Sheet1!A:E'',
                 valueInputOption = js ''USER_ENTERED'',
                 resource_values = [ [String date, purchaser, String item, Number amt, String []] ]\<rparr>
      in if sheets_accepts e rq
         then (Inr True,
               \<lparr>ledger = ledger w @ [ [String date, purchaser, String item, Number amt, String []] ],
                events = events w @ [Sheets_append rq, Console_log]\<rparr>)
         else (Inr False,
               \<lparr>ledger = ledger w, events = events w @ [Sheets_append rq, Console_error]\<rparr>))"
  by (simp add: addToSpreadsheet_cases Let_def)

lemma postMessage_events:
  "events (snd (postMessage e c m w)) = events w @ [Post_message c m]"
  by (simp add: postMessage_def events_emit)

lemma postMessage_ledger: "ledger (snd (postMessage e c m w)) = ledger w"
  by (simp add: postMessage_def ledger_emit)

lemma getSlackUserInfo_returns:
  "getSlackUserInfo e u w =
     (case users_info e u of
        Inr (Some usr) \<Rightarrow>
          (Inr (js_or (js_or (real_name usr) (display_name usr)) (name usr)),
           emit (Users_info u) w)
      | _ \<Rightarrow> (Inr (String (js ''Unknown User'')), emit Console_error (emit (Users_info u) w)))"
  by (simp add: getSlackUserInfo_def Let_def split: sum.splits option.splits)

lemma getSlackUserInfo_events:
  "\<exists>r. events (snd (getSlackUserInfo e u w)) = events w @ r"
  by (simp add: getSlackUserInfo_returns events_emit split: sum.splits option.splits)

lemma getSlackUserInfo_ledger: "ledger (snd (getSlackUserInfo e u w)) = ledger w"
  by (simp add: getSlackUserInfo_returns ledger_emit split: sum.splits option.splits)

lemma addToSpreadsheet_events:
  "\<exists>r. events (snd (addToSpreadsheet e p i a d w)) = events w @ r"
  by (simp add: addToSpreadsheet_def sheets_append_cases Let_def events_emit)

lemma handler_try_events:
  "\<exists>r. events (snd (handler_try e req w)) = events w @ r"
proof -
  have post: "\<And>c m w'. (\<exists>r. events w' = events w @ r)
                \<Longrightarrow> \<exists>r. events (snd (postMessage e c m w')) = events w @ r"
    by (auto simp: postMessage_events)
  have user: "\<And>u w'. (\<exists>r. events w' = events w @ r)
                \<Longrightarrow> \<exists>r. events (snd (getSlackUserInfo e u w')) = events w @ r"
    using getSlackUserInfo_events by (metis append.assoc)
  have add: "\<And>p i a d w'. (\<exists>r. events w' = events w @ r)
                \<Longrightarrow> \<exists>r. events (snd (addToSpreadsheet e p i a d w')) = events w @ r"
    using addToSpreadsheet_events by (metis append.assoc)
  have em: "\<And>ev w'. (\<exists>r. events w' = events w @ r)
                \<Longrightarrow> \<exists>r. events (emit ev w') = events w @ r"
    by (auto simp: events_emit)
  have w0: "\<exists>r. events w = events w @ r" by simp
  show ?thesis
    unfolding handler_try_def Let_def
    by (auto split: option.splits sum.splits prod.splits bool.splits
             intro!: post em w0
             dest: arg_cong [where f = snd]
             simp del: ex_simps)
      (metis user add em w0 snd_conv)+
qed

section \<open>Properties of the command handler\<close>

text \<open>
  Claim C6. Whatever the command, the first thing the handler does is to send the
  acknowledgment: every other event of the handling (the call of the parser, the lookup,
  the append, the messages) comes after it.
\<close>

theorem acknowledgment_first:
  "\<exists>rest. events (snd (commands_handler e req w)) = events w @ Respond 200 Processing # rest"
proof -
  let ?w0 = "emit (Respond 200 Processing) w"
  obtain r where r: "events (snd (handler_try e req ?w0)) = events ?w0 @ r"
    using handler_try_events by blast
  show ?thesis
  proof (cases "handler_try e req ?w0")
    case (Pair res w1)
    with r have w1: "events w1 = events w @ Respond 200 Processing # r"
      by (simp add: events_emit)
    show ?thesis
    proof (cases res)
      case (Inl err)
      with Pair w1 show ?thesis
        by (simp add: commands_handler_def Let_def postMessage_events events_emit)
    next
      case (Inr u)
      with Pair w1 show ?thesis
        by (simp add: commands_handler_def Let_def)
    qed
  qed
qed

text \<open>
  Claim C10. When the name of the command is not the purchase command, the handler sends
  the acknowledgment and does nothing else: the sheet is as it was, and the
  acknowledgment is the only event (no lookup, no append, no message to the channel).
\<close>

theorem other_command_only_acknowledged:
  assumes "body_field req (js ''command'') \<noteq> Some ai_command"
  shows "commands_handler e req w
           = (Inr (), \<lparr>ledger = ledger w, events = events w @ [Respond 200 Processing]\<rparr>)"
  using assms by (simp add: commands_handler_def handler_try_def Let_def emit_def)

theorem other_command_only_acknowledged_witness:
  "body_field other_request (js ''command'') \<noteq> Some ai_command
   \<and> commands_handler example_env other_request empty_world
       = (Inr (), \<lparr>ledger = [], events = [Respond 200 Processing]\<rparr>)"
proof -
  have h: "body_field other_request (js ''command'') \<noteq> Some ai_command"
    by (simp add: body_field_def other_request_def ai_command_def js_def)
  show ?thesis
    using h other_command_only_acknowledged [OF h, of example_env empty_world]
    by (simp add: empty_world_def)
qed

lemma handler_try_parsed:
  assumes "body_field req (js ''command'') = Some ai_command"
    and "body_field req (js ''text'') = Some tx"
    and "trim tx \<noteq> []"
    and "parseInput tx = Inr (Some p)"
  shows "handler_try e req w =
     (case getSlackUserInfo e (body_field req (js ''user_id'')) (emit (Parse_input tx) w) of
        (Inl err, w1) \<Rightarrow> (Inl err, w1)
      | (Inr userName, w1) \<Rightarrow>
          (case addToSpreadsheet e userName (programName p) (amount p) (toLocaleDateString e) w1 of
             (Inl err, w2) \<Rightarrow> (Inl err, w2)
           | (Inr success, w2) \<Rightarrow>
               if success
               then postMessage e (body_field req (js ''channel_id''))
                      (Registered userName (programName p) (amount p) (toLocaleDateString e)) w2
               else postMessage e (body_field req (js ''channel_id'')) Sheet_failed w2))"
proof -
  from assms(3) have "tx \<noteq> []"
    by (auto simp: trim_def trim_start_def trim_end_def)
  with assms show ?thesis
    by (simp add: handler_try_def Let_def split: prod.splits sum.splits)
qed

lemma commands_handler_ledger_post:
  "ledger (snd (commands_handler e req w)) = ledger (snd (handler_try e req (emit (Respond 200 Processing) w)))"
  by (simp add: commands_handler_def Let_def postMessage_ledger ledger_emit
           split: prod.splits sum.splits)

lemma getSlackUserInfo_fst: "fst (getSlackUserInfo e u w) = Inr (resolved_name e u)"
  by (simp add: getSlackUserInfo_returns resolved_name_def split: sum.splits option.splits)

lemma handler_try_parsed_ledger:
  assumes "body_field req (js ''command'') = Some ai_command"
    and "body_field req (js ''text'') = Some tx"
    and "trim tx \<noteq> []"
    and "parseInput tx = Inr (Some p)"
  shows "ledger (snd (handler_try e req w)) =
     (if sheets_accepts e
           \<lparr>spreadsheetId = GOOGLE_SHEETS_ID e, sheet_range = js ''Sheet1!A:E'',
            valueInputOption = js ''USER_ENTERED'',
            resource_values = [ [String (toLocaleDateString e),
                                resolved_name e (body_field req (js ''user_id'')),
                                String (programName p), Number (amount p), String []] ]\<rparr>
      then ledger w @ [ [String (toLocaleDateString e),
                        resolved_name e (body_field req (js ''user_id'')),
                        String (programName p), Number (amount p), String []] ]
      else ledger w)"
proof -
  obtain w1 where g: "getSlackUserInfo e (body_field req (js ''user_id'')) (emit (Parse_input tx) w)
      = (Inr (resolved_name e (body_field req (js ''user_id''))), w1)"
    using getSlackUserInfo_fst by (metis prod.collapse)
  have l1: "ledger w1 = ledger w"
    using getSlackUserInfo_ledger [of e "body_field req (js ''user_id'')" "emit (Parse_input tx) w"] g
    by (simp add: ledger_emit)
  show ?thesis
    by (simp add: handler_try_parsed [OF assms] g addToSpreadsheet_cases Let_def
          postMessage_ledger l1)
qed

text \<open>
  Claim C7. The resolver always returns a value and never an error; when the lookup
  fails (the service reports an error, or its answer carries no user) the value is
  "Unknown User"; and the handler then still attempts the append, with that name as the
  purchaser.
\<close>

theorem lookup_failure_gives_placeholder:
  "(\<exists>v w'. getSlackUserInfo e u w = (Inr v, w'))
   \<and> ((users_info e u = Inl err \<or> users_info e u = Inr None)
        \<longrightarrow> fst (getSlackUserInfo e u w) = Inr (String (js ''Unknown User'')))
   \<and> ((users_info e (body_field req (js ''user_id'')) = Inl err
         \<or> users_info e (body_field req (js ''user_id'')) = Inr None)
        \<and> body_field req (js ''command'') = Some ai_command
        \<and> body_field req (js ''text'') = Some tx \<and> trim tx \<noteq> []
        \<and> parseInput tx = Inr (Some p)
        \<longrightarrow> Sheets_append
              \<lparr>spreadsheetId = GOOGLE_SHEETS_ID e, sheet_range = js ''Sheet1!A:E'',
               valueInputOption = js ''USER_ENTERED'',
               resource_values = [ [String (toLocaleDateString e), String (js ''Unknown User''),
                                   String (programName p), Number (amount p), String []] ]\<rparr>
            \<in> set (events (snd (commands_handler e req w))))"
proof (intro conjI impI)
  show "\<exists>v w'. getSlackUserInfo e u w = (Inr v, w')"
    by (simp add: getSlackUserInfo_returns split: sum.splits option.splits)
next
  assume "users_info e u = Inl err \<or> users_info e u = Inr None"
  then show "fst (getSlackUserInfo e u w) = Inr (String (js ''Unknown User''))"
    by (auto simp: getSlackUserInfo_returns)
next
  let ?uid = "body_field req (js ''user_id'')"
  let ?w0 = "emit (Respond 200 Processing) w"
  let ?rq = "\<lparr>spreadsheetId = GOOGLE_SHEETS_ID e, sheet_range = js ''Sheet1!A:E'',
               valueInputOption = js ''USER_ENTERED'',
               resource_values = [ [String (toLocaleDateString e), String (js ''Unknown User''),
                                   String (programName p), Number (amount p), String []] ]\<rparr>"
  assume a: "(users_info e ?uid = Inl err \<or> users_info e ?uid = Inr None)
        \<and> body_field req (js ''command'') = Some ai_command
        \<and> body_field req (js ''text'') = Some tx \<and> trim tx \<noteq> []
        \<and> parseInput tx = Inr (Some p)"
  then have g: "getSlackUserInfo e ?uid (emit (Parse_input tx) ?w0)
      = (Inr (String (js ''Unknown User'')),
         emit Console_error (emit (Users_info ?uid) (emit (Parse_input tx) ?w0)))"
    by (auto simp: getSlackUserInfo_returns)
  from a have t: "handler_try e req ?w0 =
      (case getSlackUserInfo e ?uid (emit (Parse_input tx) ?w0) of
        (Inl err, w1) \<Rightarrow> (Inl err, w1)
      | (Inr userName, w1) \<Rightarrow>
          (case addToSpreadsheet e userName (programName p) (amount p) (toLocaleDateString e) w1 of
             (Inl err, w2) \<Rightarrow> (Inl err, w2)
           | (Inr success, w2) \<Rightarrow>
               if success
               then postMessage e (body_field req (js ''channel_id''))
                      (Registered userName (programName p) (amount p) (toLocaleDateString e)) w2
               else postMessage e (body_field req (js ''channel_id'')) Sheet_failed w2))"
    by (intro handler_try_parsed) auto
  have sub: "set (events (snd (handler_try e req ?w0)))
               \<subseteq> set (events (snd (commands_handler e req w)))"
    by (cases "handler_try e req ?w0")
       (auto simp: commands_handler_def Let_def postMessage_events events_emit
             split: sum.splits)
  have "Sheets_append ?rq \<in> set (events (snd (handler_try e req ?w0)))"
    by (simp add: t g addToSpreadsheet_cases Let_def postMessage_events)
  with sub show "Sheets_append ?rq \<in> set (events (snd (commands_handler e req w)))"
    by blast
qed

theorem lookup_failure_gives_placeholder_witness:
  "fst (getSlackUserInfo example_env_no_directory (Some (js ''U1'')) empty_world)
     = Inr (String (js ''Unknown User''))
   \<and> Sheets_append
        \<lparr>spreadsheetId = Some (js ''sheet''), sheet_range = js ''Sheet1!A:E'',
         valueInputOption = js ''USER_ENTERED'',
         resource_values = [ [String (js ''2023. 11. 14.''), String (js ''Unknown User''),
                             String (js ''ChatGPT Plus''), Number (Num 20000), String []] ]\<rparr>
      \<in> set (events (snd (commands_handler example_env_no_directory unsigned_request empty_world)))"
proof -
  have u: "users_info example_env_no_directory (Some (js ''U1'')) = Inl ApiError"
    by (simp add: example_env_no_directory_def)
  have f: "body_field unsigned_request (js ''user_id'') = Some (js ''U1'')"
          "body_field unsigned_request (js ''command'') = Some ai_command"
          "body_field unsigned_request (js ''text'') = Some (js ''ChatGPT Plus 20000'')"
    by (simp_all add: body_field_def unsigned_request_def js_def)
  have t: "trim (js ''ChatGPT Plus 20000'') \<noteq> []"
    by (simp add: parse_eval)
  have c: "GOOGLE_SHEETS_ID example_env_no_directory = Some (js ''sheet'')"
          "toLocaleDateString example_env_no_directory = js ''2023. 11. 14.''"
    by (simp_all add: example_env_no_directory_def example_env_def)
  show ?thesis
    using lookup_failure_gives_placeholder
      [of example_env_no_directory "Some (js ''U1'')" empty_world ApiError unsigned_request
          "js ''ChatGPT Plus 20000''"
          "\<lparr>programName = js ''ChatGPT Plus'', amount = Num 20000\<rparr>"]
      u f t c parse_chatgpt
    by simp
qed

text \<open>
  Claim C9. Handling the same valid command twice, both appends accepted, leaves two rows
  at the end of the sheet, with the same item and amount: nothing is deduplicated.
\<close>

theorem same_command_twice_appends_two_rows:
  assumes "body_field req (js ''command'') = Some ai_command"
    and "body_field req (js ''text'') = Some tx"
    and "trim tx \<noteq> []"
    and "parseInput tx = Inr (Some p)"
    and "\<And>rq. sheets_accepts e1 rq"
    and "\<And>rq. sheets_accepts e2 rq"
  shows "ledger (snd (commands_handler e2 req (snd (commands_handler e1 req w)))) =
           ledger w @
           [ [String (toLocaleDateString e1), resolved_name e1 (body_field req (js ''user_id'')),
             String (programName p), Number (amount p), String [] ],
            [String (toLocaleDateString e2), resolved_name e2 (body_field req (js ''user_id'')),
             String (programName p), Number (amount p), String []] ]"
  by (simp add: commands_handler_ledger_post handler_try_parsed_ledger [OF assms(1-4)]
        assms(5,6) ledger_emit)

theorem same_command_twice_appends_two_rows_witness:
  "ledger (snd (commands_handler example_env unsigned_request
                  (snd (commands_handler example_env unsigned_request empty_world)))) =
     [ [String (js ''2023. 11. 14.''), String (js ''Kim''), String (js ''ChatGPT Plus''),
       Number (Num 20000), String [] ],
      [String (js ''2023. 11. 14.''), String (js ''Kim''), String (js ''ChatGPT Plus''),
       Number (Num 20000), String []] ]"
proof -
  have f: "body_field unsigned_request (js ''command'') = Some ai_command"
          "body_field unsigned_request (js ''text'') = Some (js ''ChatGPT Plus 20000'')"
          "body_field unsigned_request (js ''user_id'') = Some (js ''U1'')"
    by (simp_all add: body_field_def unsigned_request_def js_def)
  have t: "trim (js ''ChatGPT Plus 20000'') \<noteq> []"
    by (simp add: parse_eval)
  have a: "\<And>rq. sheets_accepts example_env rq"
    by (simp add: example_env_def)
  have n: "resolved_name example_env (Some (js ''U1'')) = String (js ''Kim'')"
    by (simp add: resolved_name_def example_env_def js_or_def js_def)
  have d: "toLocaleDateString example_env = js ''2023. 11. 14.''"
    by (simp add: example_env_def)
  show ?thesis
    using same_command_twice_appends_two_rows [OF f(1) f(2) t parse_chatgpt a a, of empty_world]
    by (simp add: f n d empty_world_def)
qed

section \<open>Properties of the verifier\<close>

text \<open>
  Claim C3. The verifier measures the age of a request in whole seconds: it rounds the
  clock down to the second before it compares. When the timestamp header reads as a
  whole number of seconds that is more than 300 away from that second, the verifier
  answers 400 whatever the signature is: with "Invalid request" when a header is missing
  or empty, with "Request too old" otherwise. The keyed hash and the comparison of the
  signatures are not reached (no secret is needed, and the answer is never "Invalid
  signature"). On whole numbers the exact values of the model and the doubles of the
  code give the same verdict.
\<close>

theorem stale_timestamp_rejected:
  assumes "x_slack_request_timestamp req = Some ts"
    and "to_number ts = Num (of_int k)"
    and "\<bar>getTime e div 1000 - k\<bar> > 300"
  shows "verifySlackRequest e req =
           Inr (Rejected 400
                  (if x_slack_signature req = None \<or> x_slack_signature req = Some [] \<or> ts = []
                   then js ''Invalid request'' else js ''Request too old''))"
proof -
  have "\<bar>of_int (getTime e div 1000) - (of_int k :: rat)\<bar> = of_int \<bar>getTime e div 1000 - k\<bar>"
    by simp
  with assms(3) have "\<bar>of_int (getTime e div 1000) - (of_int k :: rat)\<bar> > 300"
    by (simp only: of_int_less_iff [symmetric, where ?'a = rat] of_int_numeral)
  with assms(1,2) show ?thesis
    by (simp add: verifySlackRequest_def Let_def split: option.splits)
qed

theorem stale_timestamp_rejected_witness:
  "verifySlackRequest example_env stale_request = Inr (Rejected 400 (js ''Request too old''))"
proof -
  have h: "x_slack_request_timestamp stale_request = Some (js ''1699999699'')"
    by (simp add: stale_request_def)
  have n: "to_number (js ''1699999699'') = Num (of_int 1699999699)"
    by (simp add: to_number_def Let_def parse_eval)
  have g: "\<bar>getTime example_env div 1000 - 1699999699\<bar> > 300"
    by (simp add: example_env_def)
  show ?thesis
    using stale_timestamp_rejected [OF h n g]
    by (simp add: stale_request_def js_def)
qed

text \<open>
  A request can be more than 300 seconds old and still pass the check of its age: up to
  a second is lost when the clock is rounded down. At 999 milliseconds into the second,
  a timestamp 300.999 seconds old is compared as 300, which is not more than 300, and the
  verdict is that of the signature, for every keyed hash \<open>h\<close>.
\<close>

lemma late_request_reaches_comparison:
  assumes "sg \<noteq> []"
  shows \<open>verifySlackRequest (late_env\<lparr>hmac_sha256_hex := h\<rparr>) (late_request sg) =
           Inr (if sg = js ''v0='' @ h (js ''secret'') (js ''v0:1699999700:{"text":"a"}'')
                then Next else Rejected 400 (js ''Invalid signature''))\<close>
proof -
  have n: "to_number (js ''1699999700'') = Num 1699999700"
    by (simp add: to_number_def Let_def parse_eval)
  have j: \<open>JSON_stringify [(js ''text'', js ''a'')] = js ''{"text":"a"}''\<close>
    by (simp add: JSON_stringify_def quote_json_def js_def escape_char_def
          is_high_surrogate_def is_low_surrogate_def)
  have b: \<open>js ''v0:'' @ js ''1699999700'' @ js '':'' @ js ''{"text":"a"}''
            = js ''v0:1699999700:{"text":"a"}''\<close>
    by (simp add: js_def)
  have ne: "js ''1699999700'' \<noteq> []"
    by (simp add: js_def)
  from assms show ?thesis
    by (simp add: verifySlackRequest_def late_request_def late_env_def example_env_def
          Let_def n j b ne)
qed

theorem late_by_a_fraction_counterexample:
  \<open>to_number (js ''1699999700'') = Num 1699999700
   \<and> \<bar>of_int (getTime late_env) / 1000 - (1699999700 :: rat)\<bar> > 300
   \<and> verifySlackRequest late_env (late_request (js ''v0=abc''))
       = Inr (Rejected 400 (js ''Invalid signature''))
   \<and> verifySlackRequest late_env
         (late_request (js ''v0='' @ hmac_sha256_hex late_env (js ''secret'')
                                        (js ''v0:1699999700:{"text":"a"}'')))
       = Inr Next\<close>
proof -
  have n: "to_number (js ''1699999700'') = Num 1699999700"
    by (simp add: to_number_def Let_def parse_eval)
  have d: "\<bar>of_int (getTime late_env) / 1000 - (1699999700 :: rat)\<bar> > 300"
    by (simp add: late_env_def)
  have e: "late_env\<lparr>hmac_sha256_hex := hmac_sha256_hex late_env\<rparr> = late_env"
    by simp
  have r: \<open>verifySlackRequest late_env (late_request (js ''v0=abc''))
             = Inr (Rejected 400 (js ''Invalid signature''))\<close>
    using late_request_reaches_comparison [of "js ''v0=abc''" "hmac_sha256_hex late_env"]
    by (simp add: e late_env_def example_env_def js_def hex4_def)
  have a: \<open>verifySlackRequest late_env
         (late_request (js ''v0='' @ hmac_sha256_hex late_env (js ''secret'')
                                        (js ''v0:1699999700:{"text":"a"}'')))
       = Inr Next\<close>
    using late_request_reaches_comparison
      [of \<open>js ''v0='' @ hmac_sha256_hex late_env (js ''secret'')
                                        (js ''v0:1699999700:{"text":"a"}'')\<close>
          "hmac_sha256_hex late_env"]
    by (simp add: e js_def)
  from n d r a show ?thesis by blast
qed

lemma non_numeric_timestamp_not_stale:
  assumes "x_slack_signature req = Some sg" and "sg \<noteq> []"
    and "x_slack_request_timestamp req = Some ts" and "ts \<noteq> []"
    and "to_number ts = NaN"
    and "SLACK_SIGNING_SECRET e = Some secret"
  shows "verifySlackRequest e req =
           Inr (if sg = js ''v0='' @ hmac_sha256_hex e secret
                                       (js ''v0:'' @ ts @ js '':'' @ JSON_stringify (body req))
                then Next else Rejected 400 (js ''Invalid signature''))"
  using assms by (simp add: verifySlackRequest_def Let_def)

lemma verify_accepts_iff:
  "verifySlackRequest e req = Inr Next \<longleftrightarrow>
     (\<exists>sg ts secret.
        x_slack_signature req = Some sg \<and> sg \<noteq> [] \<and>
        x_slack_request_timestamp req = Some ts \<and> ts \<noteq> [] \<and>
        \<not> greater_number
            (abs_number (minus_number (Num (of_int (getTime e div 1000))) (to_number ts)))
            (Num 300) \<and>
        SLACK_SIGNING_SECRET e = Some secret \<and>
        sg = js ''v0='' @ hmac_sha256_hex e secret
                            (js ''v0:'' @ ts @ js '':'' @ JSON_stringify (body req)))"
  by (auto simp: verifySlackRequest_def Let_def split: option.splits)

lemma verify_ignores_rawBody:
  "verifySlackRequest e (req\<lparr>rawBody := r\<rparr>) = verifySlackRequest e req"
  by (simp add: verifySlackRequest_def)

lemma changed_signature_rejected:
  assumes "verifySlackRequest e req = Inr Next"
    and "x_slack_signature req = Some sg"
    and "sg' \<noteq> sg"
  shows "verifySlackRequest e (req\<lparr>x_slack_signature := Some sg'\<rparr>)
           = Inr (Rejected 400 (if sg' = [] then js ''Invalid request'' else js ''Invalid signature''))"
  using assms by (auto simp: verifySlackRequest_def Let_def split: option.splits if_splits)

text \<open>
  Claim C2. The verifier prefixes the digest with "v0=" and compares it with the header
  (\<open>verify_accepts_iff\<close>, \<open>changed_signature_rejected\<close>), but the string that it
  hashes ends in \<open>JSON.stringify(req.body)\<close>, not in the raw body. On the form-encoded
  request with the raw body "text=a", signed over that raw body, the verifier hashes the
  string that ends in the JSON text of the parsed body, and accepts only if the two
  digests happen to coincide.
\<close>

theorem raw_signed_request_verdict:
  \<open>verifySlackRequest (example_env\<lparr>hmac_sha256_hex := h\<rparr>) (raw_signed_request h) =
     Inr (if h (js ''secret'') (js ''v0:1700000000:text=a'')
             = h (js ''secret'') (js ''v0:1700000000:{"text":"a"}'')
          then Next else Rejected 400 (js ''Invalid signature''))\<close>
proof -
  have n: "to_number (js ''1700000000'') = Num 1700000000"
    by (simp add: to_number_def Let_def parse_eval)
  have j: \<open>JSON_stringify [(js ''text'', js ''a'')] = js ''{"text":"a"}''\<close>
    by (simp add: JSON_stringify_def quote_json_def js_def escape_char_def
          is_high_surrogate_def is_low_surrogate_def)
  have b: \<open>js ''v0:'' @ js ''1700000000'' @ js '':'' @ js ''{"text":"a"}''
            = js ''v0:1700000000:{"text":"a"}''\<close>
    by (simp add: js_def)
  show ?thesis
    by (simp add: verifySlackRequest_def raw_signed_request_def example_env_def Let_def n j b)
      (simp add: js_def)
qed

section \<open>The route\<close>

lemma route_ignores_headers:
  "post_slack_commands e (req\<lparr>x_slack_signature := s, x_slack_request_timestamp := t\<rparr>) w
     = post_slack_commands e req w"
proof -
  have h: "\<And>k. body_field (req\<lparr>x_slack_signature := s, x_slack_request_timestamp := t\<rparr>) k
              = body_field req k"
    by (simp add: body_field_def)
  show ?thesis
    unfolding post_slack_commands_def commands_handler_def handler_try_def h ..
qed

lemma ledger_changes_only_when_parsed:
  assumes "ledger (snd (commands_handler e req w)) \<noteq> ledger w"
  shows "body_field req (js ''command'') = Some ai_command
         \<and> (\<exists>tx p. body_field req (js ''text'') = Some tx \<and> trim tx \<noteq> []
                \<and> parseInput tx = Inr (Some p)
                \<and> programName p \<noteq> [] \<and> amount p \<noteq> NaN)"
proof -
  from assms have l: "ledger (snd (handler_try e req (emit (Respond 200 Processing) w))) \<noteq> ledger w"
    by (simp add: commands_handler_ledger_post)
  then show ?thesis
    unfolding handler_try_def Let_def
    by (auto simp: postMessage_ledger ledger_emit dest: parseInput_result
             split: if_splits option.splits sum.splits)
qed

text \<open>
  Claim C1. A row is appended only after the parser succeeded
  (\<open>ledger_changes_only_when_parsed\<close>), but the route never consults the verifier
  (\<open>route_ignores_headers\<close>): the purchase command without any signature header, which
  \<open>verifySlackRequest\<close> would answer with 400, is appended to the sheet.
\<close>

theorem unverified_request_is_appended:
  "verifySlackRequest example_env unsigned_request = Inr (Rejected 400 (js ''Invalid request''))
   \<and> ledger (snd (post_slack_commands example_env unsigned_request empty_world)) =
       [ [String (js ''2023. 11. 14.''), String (js ''Kim''), String (js ''ChatGPT Plus''),
         Number (Num 20000), String []] ]"
proof -
  have f: "body_field unsigned_request (js ''command'') = Some ai_command"
          "body_field unsigned_request (js ''text'') = Some (js ''ChatGPT Plus 20000'')"
          "body_field unsigned_request (js ''user_id'') = Some (js ''U1'')"
    by (simp_all add: body_field_def unsigned_request_def js_def)
  have t: "trim (js ''ChatGPT Plus 20000'') \<noteq> []"
    by (simp add: parse_eval)
  have n: "resolved_name example_env (Some (js ''U1'')) = String (js ''Kim'')"
    by (simp add: resolved_name_def example_env_def js_or_def js_def)
  have c: "toLocaleDateString example_env = js ''2023. 11. 14.''"
          "\<And>rq. sheets_accepts example_env rq"
    by (simp_all add: example_env_def)
  have v: "verifySlackRequest example_env unsigned_request = Inr (Rejected 400 (js ''Invalid request''))"
    by (simp add: verifySlackRequest_def unsigned_request_def)
  have "ledger (snd (post_slack_commands example_env unsigned_request empty_world)) =
       [ [String (js ''2023. 11. 14.''), String (js ''Kim''), String (js ''ChatGPT Plus''),
         Number (Num 20000), String []] ]"
    by (simp add: post_slack_commands_def commands_handler_ledger_post
          handler_try_parsed_ledger [OF f(1) f(2) t parse_chatgpt] f n c ledger_emit empty_world_def)
  with v show ?thesis by simp
qed

subsection \<open>The handler of \<open>src/app.js\<close>\<close>

text \<open>
  The variant of \<open>src/app.js\<close> on the same command: it appends first and answers
  afterwards, once, and the amount that it writes is a string.
\<close>

lemma sync_handler_answers_after_append:
  "commands_handler_sync example_env unsigned_request empty_world =
     (Inr (),
      \<lparr>ledger = [ [String (js ''2023. 11. 14.''), String test_user, String (js ''ChatGPT Plus''),
                  String (js ''20000''), String []] ],
       events = [Console_log,
                 Sheets_append
                   \<lparr>spreadsheetId = Some (js ''sheet''), sheet_range = js ''Sheet1!A:E'',
                    valueInputOption = js ''USER_ENTERED'',
                    resource_values = [ [String (js ''2023. 11. 14.''), String test_user,
                                        String (js ''ChatGPT Plus''), String (js ''20000''),
                                        String []] ]\<rparr>,
                 Respond 200 (Sync_registered (js ''ChatGPT Plus'') (js ''20000''))]\<rparr>)"
  by (simp add: commands_handler_sync_def body_field_def unsigned_request_def example_env_def
        empty_world_def sheets_append_def emit_def Let_def js_def trim_def trim_start_def
        trim_end_def is_space_def is_line_terminator_def is_digit_def)

end
